theory Spec2Isabelle
  imports Main
begin

section \<open>Python string primitives used by the field classes\<close>

text \<open>
  A string is a list of characters.  Which characters are whitespace and what
  \<open>lower\<close> does belong to the interpreter's string type (byte strings in Python 2,
  where \<open>n.content\<close> of a libxml2 node is a \<open>str\<close>; Unicode strings in Python 3),
  so the model takes them as parameters, with the other library functions.
  \<open>s.strip()\<close> with no argument removes the leading and the trailing whitespace
  characters of \<open>s\<close>.
\<close>

definition lstrip :: "(char \<Rightarrow> bool) \<Rightarrow> string \<Rightarrow> string" where
  "lstrip ws s = dropWhile ws s"

definition rstrip :: "(char \<Rightarrow> bool) \<Rightarrow> string \<Rightarrow> string" where
  "rstrip ws s = rev (dropWhile ws (rev s))"

definition strip :: "(char \<Rightarrow> bool) \<Rightarrow> string \<Rightarrow> string" where
  "strip ws s = rstrip ws (lstrip ws s)"

text \<open>
  The byte strings of Python 2 in the C locale: \<open>isspace\<close> holds of space, tab,
  newline, vertical tab, form feed and carriage return, and \<open>lower\<close> maps \<open>A\<close> to
  \<open>Z\<close> to \<open>a\<close> to \<open>z\<close>.  The class \<open>\d\<close> of a regular expression matches
  \<open>0\<close> to \<open>9\<close>; among the 256 characters of the model these are the decimal digits
  of a Unicode pattern too, so \<open>\d\<close> is not a parameter.
\<close>

definition ascii_isspace :: "char \<Rightarrow> bool" where
  "ascii_isspace c = (c \<in> set [CHR 0x20, CHR 0x09, CHR 0x0A, CHR 0x0B, CHR 0x0C, CHR 0x0D])"

definition ascii_isdigit :: "char \<Rightarrow> bool" where
  "ascii_isdigit c = (48 \<le> (of_char c :: nat) \<and> (of_char c :: nat) \<le> 57)"

definition ascii_lower_char :: "char \<Rightarrow> char" where
  "ascii_lower_char c =
     (if 65 \<le> (of_char c :: nat) \<and> (of_char c :: nat) \<le> 90
      then char_of ((of_char c :: nat) + 32) else c)"

definition ascii_lower :: "string \<Rightarrow> string" where
  "ascii_lower s = map ascii_lower_char s"

text \<open>\<open>sep.join(xs)\<close>: the items of \<open>xs\<close> with \<open>sep\<close> between neighbours.\<close>

fun join :: "string \<Rightarrow> string list \<Rightarrow> string" where
  "join sep [] = []"
| "join sep [x] = x"
| "join sep (x # y # ys) = x @ sep @ join sep (y # ys)"

section \<open>The external collaborators\<close>

text \<open>
  The DOM and the standard library are not part of the repository; the model takes them
  as parameters.  \<open>xpathEval\<close> and \<open>content\<close> are the two operations the code calls on
  a libxml2 node; the document is read-only, so both are functions of their arguments.
  \<open>py_int\<close> and \<open>py_float\<close> are the builtins \<open>int()\<close> and \<open>float()\<close> on a string,
  \<open>strptime\<close> is \<open>datetime.datetime.strptime\<close> (\<open>None\<close> when it raises: the caller
  catches everything).  \<open>isspace\<close> is the whitespace that \<open>str.strip()\<close> removes and
  \<open>lower\<close> is \<open>str.lower()\<close>.
\<close>

datatype error = ValueError string | TypeError string | AttributeError string

record ('n, 'f, 'd) ext =
  xpathEval :: "'n \<Rightarrow> string \<Rightarrow> 'n list"
  content :: "'n \<Rightarrow> string"
  py_int :: "string \<Rightarrow> error + int"
  py_float :: "string \<Rightarrow> error + 'f"
  strptime :: "string \<Rightarrow> string \<Rightarrow> 'd option"
  isspace :: "char \<Rightarrow> bool"
  lower :: "string \<Rightarrow> string"

section \<open>Field declarations and record classes\<close>

text \<open>
  A field object holds what its \<open>__init__\<close> stored: the XPath, and for
  \<open>BooleanField\<close> the two token tuples, for \<open>DatetimeField\<close> the format tuple, for
  \<open>ChildrenField\<close> and \<open>FirstChildField\<close> the record class.  A record class
  (a subclass of \<open>XPathRecord\<close>) is its class attributes that are \<open>Field\<close> instances,
  in the order of \<open>dir()\<close>, and its static method \<open>record_filter\<close>.
\<close>

datatype 'n field =
    TextField string
  | FloatField string
  | IntField string
  | BooleanField string "string list" "string list"
  | DatetimeField string "string list"
  | NodeExistsField string
  | ChildrenField string "'n rcls"
  | FirstChildField string "'n rcls"
and 'n rcls =
    XPathRecord (cls_fields: "(string \<times> 'n field) list") (record_filter: "'n \<Rightarrow> bool")

text \<open>\<open>XPathRecord.record_filter\<close>, which a subclass may override.\<close>

definition default_record_filter :: "'n \<Rightarrow> bool" where
  "default_record_filter node = True"

definition DEFAULT_TRUE_VALUES :: "string list" where
  "DEFAULT_TRUE_VALUES = [''y'', ''yes'', ''true'', ''t'', ''ok'']"

definition DEFAULT_FALSE_VALUES :: "string list" where
  "DEFAULT_FALSE_VALUES = [''n'', ''no'', ''false'', ''f'', ''nil'']"

text \<open>
  \<open>BooleanField.__init__(xpath, true_values = None, false_values = None)\<close>, which
  lower-cases the tokens it is given.
\<close>

definition BooleanField_init ::
  "('n, 'f, 'd) ext \<Rightarrow> string \<Rightarrow> string list option \<Rightarrow> string list option \<Rightarrow> 'n field" where
  "BooleanField_init E xpath true_values false_values =
     BooleanField xpath
       (case true_values of None \<Rightarrow> DEFAULT_TRUE_VALUES | Some tv \<Rightarrow> map (lower E) tv)
       (case false_values of None \<Rightarrow> DEFAULT_FALSE_VALUES | Some fv \<Rightarrow> map (lower E) fv)"

definition DEFAULT_FORMATS :: "string list" where
  "DEFAULT_FORMATS =
     [''%Y-%m-%d %H:%M:%S'', ''%Y-%m-%d %H:%M'', ''%Y-%m-%d'', ''%Y%m%d'', ''%m/%d/%Y'']"

text \<open>
  The \<open>format\<close> argument of \<open>DatetimeField.__init__\<close>: a single \<open>str\<close> or a sequence
  of them, \<open>[]\<close> by default.
\<close>

datatype format_arg = FormatStr string | FormatList "string list"

definition default_format :: format_arg where
  "default_format = FormatList []"

definition DatetimeField_init :: "string \<Rightarrow> format_arg \<Rightarrow> 'n field" where
  "DatetimeField_init xpath fmt =
     DatetimeField xpath (case fmt of FormatStr f \<Rightarrow> [f] | FormatList fs \<Rightarrow> fs)"

section \<open>Values, objects and the program state\<close>

text \<open>
  \<open>PRef\<close> is a reference to a mutable object: a \<open>Lazy\<close> cell, a record instance or a
  generator.  The state is the heap of those objects and the log of the calls made to
  the adapter's \<open>xpathEval\<close> (an instrumented adapter).
\<close>

datatype ('f, 'd) pyval =
    PNone
  | PStr string
  | PInt int
  | PFloat 'f
  | PBool bool
  | PDatetime 'd
  | PRef nat

text \<open>
  A generator object is the suspended frame of a generator function.  \<open>records\<close> is
  suspended either before its first statement or at its \<open>yield\<close>, inside the \<open>for\<close>
  over the nodes still to come.  \<open>ChildrenField.value\<close> is suspended either before its
  first statement or at its \<open>yield\<close>, inside both loops: the outer nodes still to come
  and the inner \<open>records\<close> generator, which no one else holds and which is itself
  suspended at its \<open>yield\<close> (its frame is kept inline).
\<close>

datatype 'n genstate =
    RecordsStart "'n rcls" 'n string
  | RecordsLoop "'n rcls" "'n list"
  | ChildrenStart string "'n rcls" 'n
  | ChildrenLoop "'n rcls" "'n list" "'n list"
  | GenDone

datatype ('n, 'f, 'd) obj =
    Lazy "('f, 'd) pyval" 'n "'n field"
  | Record "'n rcls" 'n "(string \<times> nat) list"
  | Generator "'n genstate"

record ('n, 'f, 'd) state =
  heap :: "('n, 'f, 'd) obj list"
  evals :: "('n \<times> string) list"

definition lookup :: "nat \<Rightarrow> ('n, 'f, 'd) state \<Rightarrow> ('n, 'f, 'd) obj option" where
  "lookup r s = (if r < length (heap s) then Some (heap s ! r) else None)"

definition alloc :: "('n, 'f, 'd) obj \<Rightarrow> ('n, 'f, 'd) state \<Rightarrow> nat \<times> ('n, 'f, 'd) state" where
  "alloc ob s = (length (heap s), s\<lparr>heap := heap s @ [ob]\<rparr>)"

definition store :: "nat \<Rightarrow> ('n, 'f, 'd) obj \<Rightarrow> ('n, 'f, 'd) state \<Rightarrow> ('n, 'f, 'd) state" where
  "store r ob s = s\<lparr>heap := (heap s)[r := ob]\<rparr>"

text \<open>\<open>dom.xpathEval(xpath)\<close> through the instrumented adapter.\<close>

definition xpathEval_call ::
  "('n, 'f, 'd) ext \<Rightarrow> 'n \<Rightarrow> string \<Rightarrow> ('n, 'f, 'd) state \<Rightarrow> 'n list \<times> ('n, 'f, 'd) state" where
  "xpathEval_call E ctx xpath s = (xpathEval E ctx xpath, s\<lparr>evals := evals s @ [(ctx, xpath)]\<rparr>)"

section \<open>XPathRecord\<close>

text \<open>
  \<open>XPathRecord.__init__(self, dom)\<close>: every attribute that is a \<open>Field\<close> is replaced,
  on the instance, by \<open>Lazy(dom, field)\<close>, whose cache starts as \<open>None\<close>.
\<close>

fun make_lazies ::
  "'n \<Rightarrow> (string \<times> 'n field) list \<Rightarrow> ('n, 'f, 'd) state \<Rightarrow> (string \<times> nat) list \<times> ('n, 'f, 'd) state" where
  "make_lazies ctx [] s = ([], s)"
| "make_lazies ctx ((name, field) # fs) s =
     (case alloc (Lazy PNone ctx field) s of (r, s1) \<Rightarrow>
        (case make_lazies ctx fs s1 of (rs, s2) \<Rightarrow> ((name, r) # rs, s2)))"

definition XPathRecord_init ::
  "'n rcls \<Rightarrow> 'n \<Rightarrow> ('n, 'f, 'd) state \<Rightarrow> nat \<times> ('n, 'f, 'd) state" where
  "XPathRecord_init cls ctx s =
     (case make_lazies ctx (cls_fields cls) s of (attrs, s1) \<Rightarrow> alloc (Record cls ctx attrs) s1)"

text \<open>
  \<open>cls.records(dom, xpath)\<close> is a generator function: the call makes the generator
  object and runs nothing of the body.
\<close>

definition records ::
  "'n rcls \<Rightarrow> 'n \<Rightarrow> string \<Rightarrow> ('n, 'f, 'd) state \<Rightarrow> nat \<times> ('n, 'f, 'd) state" where
  "records cls ctx xpath s = alloc (Generator (RecordsStart cls ctx xpath)) s"

text \<open>
  The \<open>for node in ...: if cls.record_filter(node): yield cls(node)\<close> loop of
  \<open>records\<close>, run up to its next \<open>yield\<close>: the node to build the record over and the
  nodes left, or \<open>None\<close> when the loop ends.
\<close>

fun records_loop :: "'n rcls \<Rightarrow> 'n list \<Rightarrow> ('n \<times> 'n list) option" where
  "records_loop cls [] = None"
| "records_loop cls (node # nodes) =
     (if record_filter cls node then Some (node, nodes) else records_loop cls nodes)"

text \<open>
  The nested loops shared by \<open>ChildrenField.value\<close> and \<open>FirstChildField.value\<close>,
  \<open>for n in ...: for x in cls.records(n, '.'): ...\<close>, run from the head of the outer
  loop up to the first \<open>x\<close>: the node of \<open>x\<close>, the nodes the inner generator has
  left, and the outer nodes left.
\<close>

fun children_loop ::
  "('n, 'f, 'd) ext \<Rightarrow> 'n rcls \<Rightarrow> 'n list \<Rightarrow> ('n, 'f, 'd) state \<Rightarrow>
     ('n \<times> 'n list \<times> 'n list) option \<times> ('n, 'f, 'd) state" where
  "children_loop E cls [] s = (None, s)"
| "children_loop E cls (n # ns) s =
     (case xpathEval_call E n ''.'' s of (cands, s1) \<Rightarrow>
        (case records_loop cls cands of
           Some (node, rest) \<Rightarrow> (Some (node, rest, ns), s1)
         | None \<Rightarrow> children_loop E cls ns s1))"

text \<open>
  One \<open>next()\<close> on a generator frame: the class and node of the record to yield (or
  \<open>None\<close> for \<open>StopIteration\<close>), the frame as suspended again, and the state.
\<close>

fun gen_resume ::
  "('n, 'f, 'd) ext \<Rightarrow> 'n genstate \<Rightarrow> ('n, 'f, 'd) state \<Rightarrow>
     ('n rcls \<times> 'n) option \<times> 'n genstate \<times> ('n, 'f, 'd) state" where
  "gen_resume E (RecordsStart cls ctx xpath) s =
     (case xpathEval_call E ctx xpath s of (nodes, s1) \<Rightarrow>
        (case records_loop cls nodes of
           Some (node, rest) \<Rightarrow> (Some (cls, node), RecordsLoop cls rest, s1)
         | None \<Rightarrow> (None, GenDone, s1)))"
| "gen_resume E (RecordsLoop cls nodes) s =
     (case records_loop cls nodes of
        Some (node, rest) \<Rightarrow> (Some (cls, node), RecordsLoop cls rest, s)
      | None \<Rightarrow> (None, GenDone, s))"
| "gen_resume E (ChildrenStart xpath cls ctx) s =
     (case xpathEval_call E ctx xpath s of (ns, s1) \<Rightarrow>
        (case children_loop E cls ns s1 of
           (Some (node, rest, ns'), s2) \<Rightarrow> (Some (cls, node), ChildrenLoop cls ns' rest, s2)
         | (None, s2) \<Rightarrow> (None, GenDone, s2)))"
| "gen_resume E (ChildrenLoop cls ns inner) s =
     (case records_loop cls inner of
        Some (node, rest) \<Rightarrow> (Some (cls, node), ChildrenLoop cls ns rest, s)
      | None \<Rightarrow>
        (case children_loop E cls ns s of
           (Some (node, rest, ns'), s2) \<Rightarrow> (Some (cls, node), ChildrenLoop cls ns' rest, s2)
         | (None, s2) \<Rightarrow> (None, GenDone, s2)))"
| "gen_resume E GenDone s = (None, GenDone, s)"

text \<open>
  \<open>next(g)\<close> on the object \<open>g\<close>: \<open>Inr (Some x)\<close> is the record yielded,
  \<open>Inr None\<close> is \<open>StopIteration\<close>.
\<close>

definition gen_next ::
  "('n, 'f, 'd) ext \<Rightarrow> nat \<Rightarrow> ('n, 'f, 'd) state \<Rightarrow> (error + nat option) \<times> ('n, 'f, 'd) state" where
  "gen_next E g s =
     (case lookup g s of
        Some (Generator gs) \<Rightarrow>
          (case gen_resume E gs s of
             (Some (cls, node), gs', s1) \<Rightarrow>
               (case XPathRecord_init cls node s1 of (x, s2) \<Rightarrow>
                  (Inr (Some x), store g (Generator gs') s2))
           | (None, gs', s1) \<Rightarrow> (Inr None, store g (Generator gs') s1))
      | _ \<Rightarrow> (Inl (TypeError ''object is not an iterator''), s))"

section \<open>The value of a field\<close>

text \<open>\<open>TextField.value(self, dom)\<close>, which the typed fields call first.\<close>

definition TextField_value ::
  "('n, 'f, 'd) ext \<Rightarrow> string \<Rightarrow> 'n \<Rightarrow> ('n, 'f, 'd) state \<Rightarrow> string \<times> ('n, 'f, 'd) state" where
  "TextField_value E xpath ctx s =
     (case xpathEval_call E ctx xpath s of (nodes, s1) \<Rightarrow>
        (strip (isspace E) (join [] (map (\<lambda>n. strip (isspace E) (content E n)) nodes)), s1))"

text \<open>
  \<open>DatetimeField.__kluge_date_re = re.compile('\.\d+ -\d+$')\<close>.  The pattern tried at
  the start of \<open>s\<close>: a dot, one or more digits, a space, a minus, one or more digits
  and \<open>$\<close>, which (without \<open>re.MULTILINE\<close>) holds at the end of the string and just
  before a newline that ends the string.  Both \<open>\d+\<close> are greedy and are followed by
  what must not be a digit (the longest run of digits is taken; with fewer, the next
  character would be a digit where a space or the end is asked for), so there is one
  way to match.  The result is what follows the match.
\<close>

definition kluge_date_re_match :: "string \<Rightarrow> string option" where
  "kluge_date_re_match s =
     (case s of
        [] \<Rightarrow> None
      | c # r \<Rightarrow>
          if c \<noteq> CHR ''.'' \<or> takeWhile ascii_isdigit r = [] then None
          else
            (case dropWhile ascii_isdigit r of
               a # b # r2 \<Rightarrow>
                 if a = CHR '' '' \<and> b = CHR ''-'' \<and> takeWhile ascii_isdigit r2 \<noteq> []
                    \<and> (dropWhile ascii_isdigit r2 = [] \<or> dropWhile ascii_isdigit r2 = [CHR 0x0A])
                 then Some (dropWhile ascii_isdigit r2) else None
             | _ \<Rightarrow> None))"

lemma kluge_date_re_match_shorter:
  "kluge_date_re_match s = Some rest \<Longrightarrow> length rest < length s"
proof -
  assume m: "kluge_date_re_match s = Some rest"
  then obtain c r where s: "s = c # r"
    by (cases s) (auto simp: kluge_date_re_match_def)
  from m s obtain a b r2 where r: "dropWhile ascii_isdigit r = a # b # r2" "rest = dropWhile ascii_isdigit r2"
    by (auto simp: kluge_date_re_match_def split: if_splits list.splits)
  have "length (dropWhile ascii_isdigit r2) \<le> length r2"
    by (rule length_dropWhile_le)
  moreover have "length (dropWhile ascii_isdigit r) \<le> length r"
    by (rule length_dropWhile_le)
  ultimately show ?thesis
    using r s by simp
qed

text \<open>
  \<open>self.__kluge_date_re.sub('', s)\<close>: the string is searched from the left; a match is
  replaced by the empty string and the search goes on after it.
\<close>

function kluge_date_sub :: "string \<Rightarrow> string" where
  "kluge_date_sub s =
     (case s of
        [] \<Rightarrow> []
      | c # cs \<Rightarrow>
          (case kluge_date_re_match s of
             Some rest \<Rightarrow> kluge_date_sub rest
           | None \<Rightarrow> c # kluge_date_sub cs))"
  by pat_completeness auto
termination
  by (relation "measure length") (auto dest: kluge_date_re_match_shorter)

declare kluge_date_sub.simps [simp del]

definition kluge_date :: "string \<Rightarrow> string" where
  "kluge_date s = kluge_date_sub s"

text \<open>
  The loop of \<open>DatetimeField.value\<close>: \<open>strptime\<close> with each format in turn, the first
  result that does not raise; \<open>None\<close> when the loop ends.
\<close>

fun try_formats :: "(string \<Rightarrow> string \<Rightarrow> 'd option) \<Rightarrow> string \<Rightarrow> string list \<Rightarrow> 'd option" where
  "try_formats sp s [] = None"
| "try_formats sp s (fmt # fmts) =
     (case sp s fmt of Some d \<Rightarrow> Some d | None \<Rightarrow> try_formats sp s fmts)"

text \<open>
  \<open>field.value(dom)\<close> for each field class.  \<open>ChildrenField.value\<close> is a generator
  function: the call makes the generator object and runs nothing of the body.
  \<open>FirstChildField.value\<close> is an ordinary function: it returns the first \<open>x\<close> and
  falls off the end, returning \<open>None\<close>, when there is none.
\<close>

fun field_value ::
  "('n, 'f, 'd) ext \<Rightarrow> 'n field \<Rightarrow> 'n \<Rightarrow> ('n, 'f, 'd) state \<Rightarrow>
     (error + ('f, 'd) pyval) \<times> ('n, 'f, 'd) state" where
  "field_value E (TextField xpath) ctx s =
     (case TextField_value E xpath ctx s of (t, s1) \<Rightarrow> (Inr (PStr t), s1))"
| "field_value E (FloatField xpath) ctx s =
     (case TextField_value E xpath ctx s of (t, s1) \<Rightarrow>
        (case py_float E t of Inl e \<Rightarrow> (Inl e, s1) | Inr x \<Rightarrow> (Inr (PFloat x), s1)))"
| "field_value E (IntField xpath) ctx s =
     (case TextField_value E xpath ctx s of (t, s1) \<Rightarrow>
        (case py_int E t of Inl e \<Rightarrow> (Inl e, s1) | Inr i \<Rightarrow> (Inr (PInt i), s1)))"
| "field_value E (BooleanField xpath true_values false_values) ctx s =
     (case TextField_value E xpath ctx s of (t, s1) \<Rightarrow>
        (if lower E (strip (isspace E) t) \<in> set true_values then (Inr (PBool True), s1)
         else if lower E (strip (isspace E) t) \<in> set false_values then (Inr (PBool False), s1)
         else (Inl (ValueError (''The value ('' @ lower E (strip (isspace E) t) @
                 '') is neither true nor false'')), s1)))"
| "field_value E (DatetimeField xpath format) ctx s =
     (case TextField_value E xpath ctx s of (t, s1) \<Rightarrow>
        (case try_formats (strptime E) (kluge_date t) (format @ DEFAULT_FORMATS) of
           Some d \<Rightarrow> (Inr (PDatetime d), s1)
         | None \<Rightarrow> (Inl (ValueError (''Can not parse date: '' @ kluge_date t)), s1)))"
| "field_value E (NodeExistsField xpath) ctx s =
     (case xpathEval_call E ctx xpath s of (nodes, s1) \<Rightarrow>
        (Inr (PBool (0 < sum_list (map (\<lambda>x. 1 :: nat) nodes))), s1))"
| "field_value E (ChildrenField xpath cls) ctx s =
     (case alloc (Generator (ChildrenStart xpath cls ctx)) s of (g, s1) \<Rightarrow> (Inr (PRef g), s1))"
| "field_value E (FirstChildField xpath cls) ctx s =
     (case xpathEval_call E ctx xpath s of (ns, s1) \<Rightarrow>
        (case children_loop E cls ns s1 of
           (Some (node, rest, ns'), s2) \<Rightarrow>
             (case XPathRecord_init cls node s2 of (x, s3) \<Rightarrow> (Inr (PRef x), s3))
         | (None, s2) \<Rightarrow> (Inr PNone, s2)))"

section \<open>Lazy\<close>

text \<open>
  A \<open>Lazy\<close> object holds \<open>__cache\<close>, \<open>__dom\<close> and \<open>__field\<close>; \<open>__init__\<close> sets the
  cache to \<open>None\<close>.  \<open>Lazy.__call__\<close>: when the cache \<open>is None\<close> the field's value is
  computed and assigned to the cache (an exception leaves before the assignment); the
  cache is returned.
\<close>

definition Lazy_call ::
  "('n, 'f, 'd) ext \<Rightarrow> nat \<Rightarrow> ('n, 'f, 'd) state \<Rightarrow> (error + ('f, 'd) pyval) \<times> ('n, 'f, 'd) state" where
  "Lazy_call E l s =
     (case lookup l s of
        Some (Lazy cache ctx field) \<Rightarrow>
          (if cache = PNone then
             (case field_value E field ctx s of
                (Inl e, s1) \<Rightarrow> (Inl e, s1)
              | (Inr v, s1) \<Rightarrow> (Inr v, store l (Lazy v ctx field) s1))
           else (Inr cache, s))
      | _ \<Rightarrow> (Inl (TypeError ''object is not callable''), s))"

text \<open>
  \<open>record.name()\<close>: the instance attribute \<open>name\<close>, which \<open>__init__\<close> set to a
  \<open>Lazy\<close>, is called.
\<close>

definition access ::
  "('n, 'f, 'd) ext \<Rightarrow> nat \<Rightarrow> string \<Rightarrow> ('n, 'f, 'd) state \<Rightarrow> (error + ('f, 'd) pyval) \<times> ('n, 'f, 'd) state" where
  "access E r name s =
     (case lookup r s of
        Some (Record cls ctx attrs) \<Rightarrow>
          (case map_of attrs name of
             Some l \<Rightarrow> Lazy_call E l s
           | None \<Rightarrow> (Inl (AttributeError name), s))
      | _ \<Rightarrow> (Inl (AttributeError name), s))"



section \<open>Facts about allocation and the loops\<close>

lemma lookup_alloc_new: "alloc ob s = (r, s1) \<Longrightarrow> lookup r s1 = Some ob"
  by (auto simp: alloc_def lookup_def)

lemma make_lazies_eq:
  "make_lazies ctx fs s =
     (zip (map fst fs) [length (heap s)..<length (heap s) + length fs],
      s\<lparr>heap := heap s @ map (\<lambda>nf. Lazy PNone ctx (snd nf)) fs\<rparr>)"
proof (induction fs arbitrary: s)
  case Nil
  then show ?case by simp
next
  case (Cons a fs)
  obtain name field where a: "a = (name, field)" by (cases a)
  have u: "[length (heap s)..<length (heap s) + length (a # fs)] =
      length (heap s) # [Suc (length (heap s))..<Suc (length (heap s)) + length fs]"
    by (subst upt_rec) simp
  show ?case
    unfolding u by (simp add: a alloc_def Cons.IH)
qed

lemma XPathRecord_init_eq:
  "XPathRecord_init cls ctx s =
     (length (heap s) + length (cls_fields cls),
      s\<lparr>heap := heap s @ map (\<lambda>nf. Lazy PNone ctx (snd nf)) (cls_fields cls)
            @ [Record cls ctx (zip (map fst (cls_fields cls))
                 [length (heap s)..<length (heap s) + length (cls_fields cls)])]\<rparr>)"
  by (simp add: XPathRecord_init_def make_lazies_eq alloc_def)

lemma records_loop_filter:
  "filter (record_filter cls) ns =
     (case records_loop cls ns of None \<Rightarrow> [] | Some (m, rest) \<Rightarrow> m # filter (record_filter cls) rest)"
  by (induction ns) auto

text \<open>
  What the rest of a generator will do, read off its frame: the nodes it will still
  yield records over (\<open>pending\<close>), the adapter calls it will still make
  (\<open>pending_evals\<close>) and the class of its records.  \<open>survivors\<close> are the nodes that
  the nested loops over \<open>ns\<close> reach: for each outer node in turn, the results of
  \<open>'.'\<close> on it that the class's filter accepts.
\<close>

definition survivors :: "('n, 'f, 'd) ext \<Rightarrow> 'n rcls \<Rightarrow> 'n list \<Rightarrow> 'n list" where
  "survivors E cls ns = concat (map (\<lambda>n. filter (record_filter cls) (xpathEval E n ''.'')) ns)"

fun pending :: "('n, 'f, 'd) ext \<Rightarrow> 'n genstate \<Rightarrow> 'n list" where
  "pending E (RecordsStart cls ctx xpath) = filter (record_filter cls) (xpathEval E ctx xpath)"
| "pending E (RecordsLoop cls nodes) = filter (record_filter cls) nodes"
| "pending E (ChildrenStart xpath cls ctx) = survivors E cls (xpathEval E ctx xpath)"
| "pending E (ChildrenLoop cls ns inner) = filter (record_filter cls) inner @ survivors E cls ns"
| "pending E GenDone = []"

fun pending_evals :: "('n, 'f, 'd) ext \<Rightarrow> 'n genstate \<Rightarrow> ('n \<times> string) list" where
  "pending_evals E (RecordsStart cls ctx xpath) = [(ctx, xpath)]"
| "pending_evals E (RecordsLoop cls nodes) = []"
| "pending_evals E (ChildrenStart xpath cls ctx) =
     (ctx, xpath) # map (\<lambda>n. (n, ''.'')) (xpathEval E ctx xpath)"
| "pending_evals E (ChildrenLoop cls ns inner) = map (\<lambda>n. (n, ''.'')) ns"
| "pending_evals E GenDone = []"

fun gen_class :: "'n genstate \<Rightarrow> 'n rcls option" where
  "gen_class (RecordsStart cls ctx xpath) = Some cls"
| "gen_class (RecordsLoop cls nodes) = Some cls"
| "gen_class (ChildrenStart xpath cls ctx) = Some cls"
| "gen_class (ChildrenLoop cls ns inner) = Some cls"
| "gen_class GenDone = None"

lemma records_loop_cases:
  obtains (none) "records_loop cls ns = None" "filter (record_filter cls) ns = []"
  | (some) m rest where "records_loop cls ns = Some (m, rest)"
      "filter (record_filter cls) ns = m # filter (record_filter cls) rest"
proof (cases "records_loop cls ns")
  case None
  then have "filter (record_filter cls) ns = []"
    by (subst records_loop_filter) simp
  with None show ?thesis by (rule none)
next
  case (Some p)
  obtain m rest where p: "p = (m, rest)" by (cases p)
  from Some p have "filter (record_filter cls) ns = m # filter (record_filter cls) rest"
    by (subst records_loop_filter) simp
  with Some p show ?thesis by (auto intro: some)
qed

lemma children_loop_cases:
  obtains (none) "children_loop E cls ns s = (None, s\<lparr>evals := evals s @ map (\<lambda>n. (n, ''.'')) ns\<rparr>)"
      "survivors E cls ns = []"
  | (some) m rest ns' tried where
      "children_loop E cls ns s =
         (Some (m, rest, ns'), s\<lparr>evals := evals s @ map (\<lambda>n. (n, ''.'')) tried\<rparr>)"
      "ns = tried @ ns'"
      "survivors E cls ns = m # filter (record_filter cls) rest @ survivors E cls ns'"
proof -
  have "(children_loop E cls ns s = (None, s\<lparr>evals := evals s @ map (\<lambda>n. (n, ''.'')) ns\<rparr>) \<and>
          survivors E cls ns = []) \<or>
        (\<exists>m rest ns' tried.
          children_loop E cls ns s =
            (Some (m, rest, ns'), s\<lparr>evals := evals s @ map (\<lambda>n. (n, ''.'')) tried\<rparr>) \<and>
          ns = tried @ ns' \<and>
          survivors E cls ns = m # filter (record_filter cls) rest @ survivors E cls ns')"
  proof (induction ns arbitrary: s)
    case Nil
    show ?case by (simp add: survivors_def)
  next
    case (Cons n ns)
    let ?s1 = "s\<lparr>evals := evals s @ [(n, ''.'')]\<rparr>"
    show ?case
    proof (cases rule: records_loop_cases [of cls "xpathEval E n ''.''"])
      case none
      from Cons.IH [of ?s1] show ?thesis
      proof
        assume h: "children_loop E cls ns ?s1 =
            (None, ?s1\<lparr>evals := evals ?s1 @ map (\<lambda>n. (n, ''.'')) ns\<rparr>) \<and> survivors E cls ns = []"
        with none have "children_loop E cls (n # ns) s =
            (None, s\<lparr>evals := evals s @ map (\<lambda>n. (n, ''.'')) (n # ns)\<rparr>) \<and>
            survivors E cls (n # ns) = []"
          by (simp add: xpathEval_call_def survivors_def)
        then show ?thesis by (rule disjI1)
      next
        assume "\<exists>m rest ns' tried.
          children_loop E cls ns ?s1 =
            (Some (m, rest, ns'), ?s1\<lparr>evals := evals ?s1 @ map (\<lambda>n. (n, ''.'')) tried\<rparr>) \<and>
          ns = tried @ ns' \<and>
          survivors E cls ns = m # filter (record_filter cls) rest @ survivors E cls ns'"
        then obtain m rest ns' tried where
          c: "children_loop E cls ns ?s1 =
            (Some (m, rest, ns'), ?s1\<lparr>evals := evals ?s1 @ map (\<lambda>n. (n, ''.'')) tried\<rparr>)"
          and t: "ns = tried @ ns'"
          and sv: "survivors E cls ns = m # filter (record_filter cls) rest @ survivors E cls ns'"
          by blast
        from none c have c': "children_loop E cls (n # ns) s =
            (Some (m, rest, ns'), s\<lparr>evals := evals s @ map (\<lambda>n. (n, ''.'')) (n # tried)\<rparr>)"
          by (simp add: xpathEval_call_def)
        from t have t': "n # ns = (n # tried) @ ns'" by simp
        from none sv have sv': "survivors E cls (n # ns) =
            m # filter (record_filter cls) rest @ survivors E cls ns'"
          by (simp add: survivors_def)
        from c' t' sv' show ?thesis by blast
      qed
    next
      case (some m rest)
      from some have c': "children_loop E cls (n # ns) s =
          (Some (m, rest, ns), s\<lparr>evals := evals s @ map (\<lambda>n. (n, ''.'')) [n]\<rparr>)"
        by (simp add: xpathEval_call_def)
      have t': "n # ns = [n] @ ns" by simp
      from some have sv': "survivors E cls (n # ns) =
          m # filter (record_filter cls) rest @ survivors E cls ns"
        by (simp add: survivors_def)
      from c' t' sv' show ?thesis by blast
    qed
  qed
  then show ?thesis using none some by blast
qed

lemma gen_resume_cases:
  obtains (stop) "pending E gs = []"
      "gen_resume E gs s = (None, GenDone, s\<lparr>evals := evals s @ pending_evals E gs\<rparr>)"
  | (yield) cls m gs' ev where
      "gen_resume E gs s = (Some (cls, m), gs', s\<lparr>evals := evals s @ ev\<rparr>)"
      "pending E gs = m # pending E gs'"
      "gen_class gs = Some cls" "gen_class gs' = Some cls"
      "pending_evals E gs = ev @ pending_evals E gs'"
proof (cases gs)
  case (RecordsStart cls ctx xpath)
  show ?thesis
  proof (cases rule: records_loop_cases [of cls "xpathEval E ctx xpath"])
    case none
    with RecordsStart show ?thesis
      by (intro stop) (simp_all add: xpathEval_call_def)
  next
    case (some m rest)
    with RecordsStart show ?thesis
      by (intro yield [of cls m "RecordsLoop cls rest" "[(ctx, xpath)]"])
        (simp_all add: xpathEval_call_def)
  qed
next
  case (RecordsLoop cls nodes)
  show ?thesis
  proof (cases rule: records_loop_cases [of cls nodes])
    case none
    with RecordsLoop show ?thesis
      by (intro stop) simp_all
  next
    case (some m rest)
    with RecordsLoop show ?thesis
      by (intro yield [of cls m "RecordsLoop cls rest" "[]"]) simp_all
  qed
next
  case (ChildrenStart xpath cls ctx)
  let ?s1 = "s\<lparr>evals := evals s @ [(ctx, xpath)]\<rparr>"
  show ?thesis
  proof (cases rule: children_loop_cases [of E cls "xpathEval E ctx xpath" ?s1])
    case none
    with ChildrenStart show ?thesis
      by (intro stop) (simp_all add: xpathEval_call_def)
  next
    case (some m rest ns' tried)
    with ChildrenStart show ?thesis
      by (intro yield [of cls m "ChildrenLoop cls ns' rest" "(ctx, xpath) # map (\<lambda>n. (n, ''.'')) tried"])
        (simp_all add: xpathEval_call_def)
  qed
next
  case (ChildrenLoop cls ns inner)
  show ?thesis
  proof (cases rule: records_loop_cases [of cls inner])
    case none
    show ?thesis
    proof (cases rule: children_loop_cases [of E cls ns s])
      case none': none
      with none ChildrenLoop show ?thesis
        by (intro stop) simp_all
    next
      case (some m rest ns' tried)
      with none ChildrenLoop show ?thesis
        by (intro yield [of cls m "ChildrenLoop cls ns' rest" "map (\<lambda>n. (n, ''.'')) tried"])
          simp_all
    qed
  next
    case (some m rest)
    with ChildrenLoop show ?thesis
      by (intro yield [of cls m "ChildrenLoop cls ns rest" "[]"]) simp_all
  qed
next
  case GenDone
  then show ?thesis
    by (intro stop) simp_all
qed

text \<open>
  The objects \<open>cls(node)\<close> adds to a heap of size \<open>base\<close>: one \<open>Lazy\<close> per field, with
  an empty cache, and the record whose attributes refer to them.
\<close>

definition new_record_objs :: "'n rcls \<Rightarrow> 'n \<Rightarrow> nat \<Rightarrow> ('n, 'f, 'd) obj list" where
  "new_record_objs cls ctx base =
     map (\<lambda>nf. Lazy PNone ctx (snd nf)) (cls_fields cls) @
     [Record cls ctx (zip (map fst (cls_fields cls)) [base..<base + length (cls_fields cls)])]"

lemma XPathRecord_init_objs:
  "XPathRecord_init cls ctx s =
     (length (heap s) + length (cls_fields cls),
      s\<lparr>heap := heap s @ new_record_objs cls ctx (length (heap s))\<rparr>)"
  by (simp add: XPathRecord_init_eq new_record_objs_def)

lemma length_new_record_objs [simp]:
  "length (new_record_objs cls ctx base) = Suc (length (cls_fields cls))"
  by (simp add: new_record_objs_def)

text \<open>
  The objects and the references made by building one record after another over a list
  of nodes, starting from a heap of size \<open>base\<close>.
\<close>

fun alloc_records :: "'n rcls \<Rightarrow> nat \<Rightarrow> 'n list \<Rightarrow> ('n, 'f, 'd) obj list" where
  "alloc_records cls base [] = []"
| "alloc_records cls base (m # ms) =
     new_record_objs cls m base @ alloc_records cls (base + Suc (length (cls_fields cls))) ms"

fun record_refs :: "'n rcls \<Rightarrow> nat \<Rightarrow> 'n list \<Rightarrow> nat list" where
  "record_refs cls base [] = []"
| "record_refs cls base (m # ms) =
     (base + length (cls_fields cls)) # record_refs cls (base + Suc (length (cls_fields cls))) ms"

lemma gen_next_cases:
  assumes g: "lookup g s = Some (Generator gs)"
  obtains (stop) "pending E gs = []"
      "gen_next E g s =
         (Inr None, s\<lparr>heap := (heap s)[g := Generator GenDone],
                      evals := evals s @ pending_evals E gs\<rparr>)"
  | (yield) cls m gs' ev where
      "gen_next E g s =
         (Inr (Some (length (heap s) + length (cls_fields cls))),
          s\<lparr>heap := (heap s)[g := Generator gs'] @ new_record_objs cls m (length (heap s)),
            evals := evals s @ ev\<rparr>)"
      "pending E gs = m # pending E gs'"
      "gen_class gs = Some cls" "gen_class gs' = Some cls"
      "pending_evals E gs = ev @ pending_evals E gs'"
proof (cases rule: gen_resume_cases [of E gs s])
  case stop
  from g stop(2) have "gen_next E g s =
         (Inr None, s\<lparr>heap := (heap s)[g := Generator GenDone],
                      evals := evals s @ pending_evals E gs\<rparr>)"
    by (simp add: gen_next_def store_def)
  with stop(1) show ?thesis by (rule that(1))
next
  case (yield cls m gs' ev)
  from g have lt: "g < length (heap s)"
    by (simp add: lookup_def split: if_splits)
  from g yield(1) lt have "gen_next E g s =
         (Inr (Some (length (heap s) + length (cls_fields cls))),
          s\<lparr>heap := (heap s)[g := Generator gs'] @ new_record_objs cls m (length (heap s)),
            evals := evals s @ ev\<rparr>)"
    by (simp add: gen_next_def store_def XPathRecord_init_objs list_update_append1)
  then show ?thesis using yield(2-5) by (rule that(2))
qed

text \<open>The number of records a generator object has left to yield.\<close>

definition gen_measure :: "('n, 'f, 'd) ext \<times> nat \<times> ('n, 'f, 'd) state \<Rightarrow> nat" where
  "gen_measure p =
     (case p of (E, g, s) \<Rightarrow>
        (case lookup g s of Some (Generator gs) \<Rightarrow> length (pending E gs) | _ \<Rightarrow> 0))"

lemma gen_next_decreases:
  assumes "gen_next E g s = (Inr (Some x), s1)"
  shows "gen_measure (E, g, s1) < gen_measure (E, g, s)"
proof -
  from assms obtain gs where g: "lookup g s = Some (Generator gs)"
    by (auto simp: gen_next_def split: option.splits obj.splits)
  then have lt: "g < length (heap s)"
    by (simp add: lookup_def split: if_splits)
  from g show ?thesis
  proof (cases rule: gen_next_cases [where E = E])
    case stop
    with assms show ?thesis by simp
  next
    case (yield cls m gs' ev)
    with assms have "s1 = s\<lparr>heap := (heap s)[g := Generator gs'] @ new_record_objs cls m (length (heap s)),
            evals := evals s @ ev\<rparr>"
      by simp
    with lt have "lookup g s1 = Some (Generator gs')"
      by (simp add: lookup_def nth_append)
    with g yield(2) show ?thesis
      by (simp add: gen_measure_def)
  qed
qed

text \<open>
  \<open>list(g)\<close>, or a \<open>for\<close> loop over \<open>g\<close> that runs to the end: \<open>next\<close> until
  \<open>StopIteration\<close>, collecting the items.
\<close>

function list_gen ::
  "('n, 'f, 'd) ext \<Rightarrow> nat \<Rightarrow> ('n, 'f, 'd) state \<Rightarrow> (error + nat list) \<times> ('n, 'f, 'd) state" where
  "list_gen E g s =
     (case gen_next E g s of
        (Inl e, s1) \<Rightarrow> (Inl e, s1)
      | (Inr None, s1) \<Rightarrow> (Inr [], s1)
      | (Inr (Some x), s1) \<Rightarrow>
          (case list_gen E g s1 of
             (Inl e, s2) \<Rightarrow> (Inl e, s2)
           | (Inr xs, s2) \<Rightarrow> (Inr (x # xs), s2)))"
  by pat_completeness auto
termination
  by (relation "measure gen_measure") (auto dest: gen_next_decreases [OF sym])

declare list_gen.simps [simp del]

lemma list_gen_eq:
  assumes "lookup g s = Some (Generator gs)" and "gen_class gs = Some cls"
  shows "list_gen E g s =
     (Inr (record_refs cls (length (heap s)) (pending E gs)),
      s\<lparr>heap := (heap s)[g := Generator GenDone] @ alloc_records cls (length (heap s)) (pending E gs),
        evals := evals s @ pending_evals E gs\<rparr>)"
  using assms
proof (induction "pending E gs" arbitrary: gs s)
  case Nil
  from Nil(2) show ?case
  proof (cases rule: gen_next_cases [where E = E])
    case stop
    then show ?thesis
      by (subst list_gen.simps) simp
  next
    case (yield cls m gs' ev)
    with Nil(1) show ?thesis by simp
  qed
next
  case (Cons m ms)
  from Cons(3) have lt: "g < length (heap s)"
    by (simp add: lookup_def split: if_splits)
  from Cons(3) show ?case
  proof (cases rule: gen_next_cases [where E = E])
    case stop
    with Cons(2) show ?thesis by simp
  next
    case (yield cls' m' gs' ev)
    let ?s1 = "s\<lparr>heap := (heap s)[g := Generator gs'] @ new_record_objs cls' m' (length (heap s)),
            evals := evals s @ ev\<rparr>"
    from yield(3) Cons(4) have cls: "cls' = cls" by simp
    from yield(2) Cons(2) have m: "m' = m" "ms = pending E gs'" by simp_all
    from lt have g1: "lookup g ?s1 = Some (Generator gs')"
      by (simp add: lookup_def nth_append)
    from yield(4) cls have c1: "gen_class gs' = Some cls" by simp
    note ih = Cons(1) [OF m(2) g1 c1]
    have p: "pending E gs = m # pending E gs'"
      using yield(2) m by simp
    show ?thesis
      apply (subst list_gen.simps)
      apply (simp only: yield(1) prod.case sum.case option.case ih)
      apply (simp add: cls m(1) p yield(5) lt list_update_append1)
      done
  qed
qed



lemma join_empty_sep: "join [] xs = concat xs"
  by (induction "[] :: string" xs rule: join.induct) simp_all

text \<open>The class and node of the record instance behind a reference.\<close>

definition record_at :: "('n, 'f, 'd) state \<Rightarrow> nat \<Rightarrow> ('n rcls \<times> 'n) option" where
  "record_at s r =
     (case lookup r s of Some (Record cls ctx attrs) \<Rightarrow> Some (cls, ctx) | _ \<Rightarrow> None)"

lemma record_refs_ge: "r \<in> set (record_refs cls base ms) \<Longrightarrow> base \<le> r"
proof (induction ms arbitrary: base)
  case Nil
  then show ?case by simp
next
  case (Cons m ms)
  from Cons.prems have "r = base + length (cls_fields cls) \<or>
      r \<in> set (record_refs cls (base + Suc (length (cls_fields cls))) ms)"
    by simp
  then show ?case
  proof
    assume "r = base + length (cls_fields cls)"
    then show ?thesis by simp
  next
    assume "r \<in> set (record_refs cls (base + Suc (length (cls_fields cls))) ms)"
    from Cons.IH [OF this] show ?thesis by simp
  qed
qed

lemma length_alloc_records [simp]:
  "length (alloc_records cls base ms) = length ms * Suc (length (cls_fields cls))"
  by (induction ms arbitrary: base) simp_all

lemma record_refs_less:
  "r \<in> set (record_refs cls base ms) \<Longrightarrow> r < base + length ms * Suc (length (cls_fields cls))"
proof (induction ms arbitrary: base)
  case Nil
  then show ?case by simp
next
  case (Cons m ms)
  from Cons.prems have "r = base + length (cls_fields cls) \<or>
      r \<in> set (record_refs cls (base + Suc (length (cls_fields cls))) ms)"
    by simp
  then show ?case
  proof
    assume "r = base + length (cls_fields cls)"
    then show ?thesis by simp
  next
    assume "r \<in> set (record_refs cls (base + Suc (length (cls_fields cls))) ms)"
    from Cons.IH [OF this] show ?thesis by simp
  qed
qed

lemma length_record_refs [simp]: "length (record_refs cls base ms) = length ms"
  by (induction ms arbitrary: base) auto

lemma distinct_record_refs: "distinct (record_refs cls base ms)"
proof (induction ms arbitrary: base)
  case Nil
  show ?case by simp
next
  case (Cons m ms)
  have "base + length (cls_fields cls) \<notin> set (record_refs cls (base + Suc (length (cls_fields cls))) ms)"
    using record_refs_ge [of "base + length (cls_fields cls)" cls "base + Suc (length (cls_fields cls))" ms]
    by auto
  with Cons.IH show ?case by simp
qed

lemma nth_alloc_records:
  "length pre = base \<Longrightarrow>
     map (\<lambda>r. (pre @ (alloc_records cls base ms :: ('n, 'f, 'd) obj list)) ! r) (record_refs cls base ms) =
     map (\<lambda>p. Record cls (fst p) (zip (map fst (cls_fields cls)) [snd p - length (cls_fields cls)..<snd p]))
       (zip ms (record_refs cls base ms))"
proof (induction ms arbitrary: pre base)
  case Nil
  show ?case by simp
next
  case (Cons m ms)
  let ?k = "length (cls_fields cls)"
  let ?new = "new_record_objs cls m base :: ('n, 'f, 'd) obj list"
  have l: "length (pre @ ?new) = base + Suc ?k"
    using Cons.prems by simp
  have hd: "(pre @ ?new @ alloc_records cls (base + Suc ?k) ms) ! (base + ?k) =
      Record cls m (zip (map fst (cls_fields cls)) [base..<base + ?k])"
    using Cons.prems by (simp add: nth_append new_record_objs_def)
  from Cons.IH [OF l] hd show ?case
    by simp
qed

definition obj_record :: "('n, 'f, 'd) obj \<Rightarrow> ('n rcls \<times> 'n) option" where
  "obj_record ob = (case ob of Record cls ctx attrs \<Rightarrow> Some (cls, ctx) | _ \<Rightarrow> None)"

lemma record_at_alloc_records:
  assumes h: "heap s2 = pre @ alloc_records cls (length pre) ms"
  shows "map (record_at s2) (record_refs cls (length pre) ms) = map (\<lambda>m. Some (cls, m)) ms"
proof -
  let ?refs = "record_refs cls (length pre) ms"
  have "map (record_at s2) ?refs = map (\<lambda>r. obj_record (heap s2 ! r)) ?refs"
  proof (rule map_cong [OF refl])
    fix r assume "r \<in> set ?refs"
    from record_refs_less [OF this] have "r < length (heap s2)"
      by (simp add: h)
    then show "record_at s2 r = obj_record (heap s2 ! r)"
      by (simp add: record_at_def lookup_def obj_record_def)
  qed
  also have "\<dots> = map obj_record (map (\<lambda>r. heap s2 ! r) ?refs)"
    by simp
  also have "\<dots> = map (\<lambda>p. Some (cls, fst p)) (zip ms ?refs)"
    unfolding h nth_alloc_records [OF refl] by (simp add: obj_record_def)
  also have "\<dots> = map (\<lambda>m. Some (cls, m)) (map fst (zip ms ?refs))"
    by (simp only: map_map comp_def)
  also have "\<dots> = map (\<lambda>m. Some (cls, m)) ms"
    by (simp only: map_fst_zip length_record_refs)
  finally show ?thesis .
qed

lemma default_record_filter_eq: "default_record_filter = (\<lambda>n. True)"
  by (rule ext) (simp add: default_record_filter_def)

lemma records_eq:
  "records cls ctx xpath s =
     (length (heap s), s\<lparr>heap := heap s @ [Generator (RecordsStart cls ctx xpath)]\<rparr>)"
  by (simp add: records_def alloc_def)

lemma records_list_gen:
  fixes E :: "('n, 'f, 'd) ext" and s :: "('n, 'f, 'd) state"
  obtains refs s2 where
    "list_gen E (fst (records cls ctx xpath s)) (snd (records cls ctx xpath s)) = (Inr refs, s2)"
    "map (record_at s2) refs =
       map (\<lambda>m. Some (cls, m)) (filter (record_filter cls) (xpathEval E ctx xpath))"
    "distinct refs" "\<forall>r \<in> set refs. length (heap s) < r"
    "evals s2 = evals s @ [(ctx, xpath)]"
    "lookup (fst (records cls ctx xpath s)) s2 = Some (Generator GenDone)"
proof -
  let ?g = "length (heap s)"
  let ?s1 = "s\<lparr>heap := heap s @ [Generator (RecordsStart cls ctx xpath)]\<rparr>"
  let ?acc = "filter (record_filter cls) (xpathEval E ctx xpath)"
  let ?pre = "heap s @ [Generator GenDone]"
  let ?refs = "record_refs cls (length ?pre) ?acc"
  let ?s2 = "?s1\<lparr>heap := (heap ?s1)[?g := Generator GenDone] @ alloc_records cls (length (heap ?s1)) ?acc,
        evals := evals ?s1 @ [(ctx, xpath)]\<rparr>"
  have g: "lookup ?g ?s1 = Some (Generator (RecordsStart cls ctx xpath))"
    by (simp add: lookup_def)
  have l: "list_gen E (fst (records cls ctx xpath s)) (snd (records cls ctx xpath s)) = (Inr ?refs, ?s2)"
    using list_gen_eq [OF g, of cls E] by (simp add: records_eq)
  have h2: "heap ?s2 = ?pre @ alloc_records cls (length ?pre) ?acc"
    by simp
  have m: "map (record_at ?s2) ?refs = map (\<lambda>m. Some (cls, m)) ?acc"
    by (rule record_at_alloc_records [OF h2])
  have d: "distinct ?refs"
    by (rule distinct_record_refs)
  have f: "\<forall>r \<in> set ?refs. length (heap s) < r"
    using record_refs_ge [of _ cls "length ?pre" ?acc] by fastforce
  have e: "evals ?s2 = evals s @ [(ctx, xpath)]"
    by simp
  have dn: "lookup (fst (records cls ctx xpath s)) ?s2 = Some (Generator GenDone)"
    by (simp add: records_eq lookup_def nth_append)
  from l m d f e dn show ?thesis by (rule that)
qed

lemma record_at_new_record:
  "heap s' = pre @ new_record_objs cls m (length pre) \<Longrightarrow>
     record_at s' (length pre + length (cls_fields cls)) = Some (cls, m)"
  by (simp add: record_at_def lookup_def nth_append new_record_objs_def)

lemma records_first_next:
  fixes E :: "('n, 'f, 'd) ext" and s :: "('n, 'f, 'd) state"
  shows "case filter (record_filter cls) (xpathEval E ctx xpath) of
       [] \<Rightarrow> fst (gen_next E (fst (records cls ctx xpath s)) (snd (records cls ctx xpath s))) = Inr None
     | m # rest \<Rightarrow>
         (\<exists>x s'. gen_next E (fst (records cls ctx xpath s)) (snd (records cls ctx xpath s)) = (Inr (Some x), s')
            \<and> record_at s' x = Some (cls, m)
            \<and> length (heap s') = length (heap s) + 1 + Suc (length (cls_fields cls)))"
proof -
  let ?g = "length (heap s)"
  let ?s1 = "s\<lparr>heap := heap s @ [Generator (RecordsStart cls ctx xpath)]\<rparr>"
  have g: "lookup ?g ?s1 = Some (Generator (RecordsStart cls ctx xpath))"
    by (simp add: lookup_def)
  from g show ?thesis
  proof (cases rule: gen_next_cases [where E = E])
    case stop
    then show ?thesis by (simp add: records_eq)
  next
    case (yield cls' m gs' ev)
    let ?s' = "?s1\<lparr>heap := (heap ?s1)[?g := Generator gs'] @ new_record_objs cls' m (length (heap ?s1)),
            evals := evals ?s1 @ ev\<rparr>"
    from yield(3) have c: "cls' = cls" by simp
    have h: "heap ?s' = (heap s @ [Generator gs']) @ new_record_objs cls m (length (heap s @ [Generator gs']))"
      by (simp add: c)
    from record_at_new_record [OF h]
    have "record_at ?s' (length (heap ?s1) + length (cls_fields cls')) = Some (cls, m)"
      by (simp add: c)
    moreover have "length (heap ?s') = length (heap s) + 1 + Suc (length (cls_fields cls))"
      by (simp add: c)
    ultimately show ?thesis
      using yield(1,2) by (simp add: records_eq)
  qed
qed


section \<open>Facts about the field values\<close>

lemma TextField_value_eq:
  "TextField_value E xpath ctx s =
     (strip (isspace E) (concat (map (\<lambda>n. strip (isspace E) (content E n)) (xpathEval E ctx xpath))),
      s\<lparr>evals := evals s @ [(ctx, xpath)]\<rparr>)"
  by (simp add: TextField_value_def xpathEval_call_def join_empty_sep)

lemma strip_Nil [simp]: "strip ws [] = []"
  by (simp add: strip_def lstrip_def rstrip_def)

lemma strip_no_leading_space: "strip ws s \<noteq> [] \<Longrightarrow> \<not> ws (hd (strip ws s))"
proof -
  assume ne: "strip ws s \<noteq> []"
  let ?t = "dropWhile ws s"
  have st: "strip ws s = rev (dropWhile ws (rev ?t))"
    by (simp add: strip_def lstrip_def rstrip_def)
  have tne: "?t \<noteq> []"
  proof
    assume "?t = []"
    then have "strip ws s = []" unfolding st by (simp only: rev.simps dropWhile.simps)
    with ne show False ..
  qed
  then have h: "\<not> ws (hd ?t)" by (rule hd_dropWhile)
  obtain c cs where t: "?t = c # cs" using tne by (cases ?t) auto
  with h have c: "\<not> ws c" by simp
  have "dropWhile ws (rev cs @ c # []) = dropWhile ws (rev cs) @ c # []"
    using c by (rule dropWhile_append3)
  then have "strip ws s = c # rev (dropWhile ws (rev cs))"
    by (simp add: st t)
  with c show ?thesis by simp
qed

lemma strip_no_trailing_space: "strip ws s \<noteq> [] \<Longrightarrow> \<not> ws (last (strip ws s))"
proof -
  assume ne: "strip ws s \<noteq> []"
  let ?u = "dropWhile ws (rev (dropWhile ws s))"
  have st: "strip ws s = rev ?u"
    by (simp add: strip_def lstrip_def rstrip_def)
  with ne have "?u \<noteq> []" by simp
  then have "\<not> ws (hd ?u)" by (rule hd_dropWhile)
  moreover from \<open>?u \<noteq> []\<close> have "last (rev ?u) = hd ?u" by (simp add: last_rev)
  ultimately show ?thesis by (simp add: st)
qed

section \<open>Facts about Lazy\<close>

text \<open>The \<open>__xpath\<close> a field object holds.\<close>

fun field_xpath :: "'n field \<Rightarrow> string" where
  "field_xpath (TextField xpath) = xpath"
| "field_xpath (FloatField xpath) = xpath"
| "field_xpath (IntField xpath) = xpath"
| "field_xpath (BooleanField xpath true_values false_values) = xpath"
| "field_xpath (DatetimeField xpath format) = xpath"
| "field_xpath (NodeExistsField xpath) = xpath"
| "field_xpath (ChildrenField xpath cls) = xpath"
| "field_xpath (FirstChildField xpath cls) = xpath"

text \<open>
  \<open>n\<close> calls of the same \<open>Lazy\<close> object one after the other, by a caller that
  catches the exception of each: the results in order and the state after the last.
\<close>

fun Lazy_calls ::
  "('n, 'f, 'd) ext \<Rightarrow> nat \<Rightarrow> nat \<Rightarrow> ('n, 'f, 'd) state \<Rightarrow>
     (error + ('f, 'd) pyval) list \<times> ('n, 'f, 'd) state" where
  "Lazy_calls E l 0 s = ([], s)"
| "Lazy_calls E l (Suc n) s =
     (case Lazy_call E l s of (r, s1) \<Rightarrow>
        (case Lazy_calls E l n s1 of (rs, s2) \<Rightarrow> (r # rs, s2)))"

lemma FirstChild_value_cases:
  obtains (absent) "survivors E cls (xpathEval E ctx xpath) = []"
      "field_value E (FirstChildField xpath cls) ctx s =
         (Inr PNone,
          s\<lparr>evals := evals s @ (ctx, xpath) # map (\<lambda>n. (n, ''.'')) (xpathEval E ctx xpath)\<rparr>)"
  | (found) m rest ns' tried where
      "survivors E cls (xpathEval E ctx xpath) = m # filter (record_filter cls) rest @ survivors E cls ns'"
      "xpathEval E ctx xpath = tried @ ns'"
      "field_value E (FirstChildField xpath cls) ctx s =
         (Inr (PRef (length (heap s) + length (cls_fields cls))),
          s\<lparr>heap := heap s @ new_record_objs cls m (length (heap s)),
            evals := evals s @ (ctx, xpath) # map (\<lambda>n. (n, ''.'')) tried\<rparr>)"
proof -
  let ?s1 = "s\<lparr>evals := evals s @ [(ctx, xpath)]\<rparr>"
  show ?thesis
  proof (cases rule: children_loop_cases [of E cls "xpathEval E ctx xpath" ?s1])
    case none
    then show ?thesis
      by (intro absent) (simp_all add: xpathEval_call_def)
  next
    case (some m rest ns' tried)
    then show ?thesis
      by (intro found [of m rest ns' tried]) (simp_all add: xpathEval_call_def XPathRecord_init_objs)
  qed
qed

lemma field_value_frame:
  "\<exists>objs ev. snd (field_value E f ctx s) = s\<lparr>heap := heap s @ objs, evals := evals s @ ev\<rparr>"
proof (cases f)
  case (TextField xpath)
  have "snd (field_value E f ctx s) = s\<lparr>heap := heap s @ [], evals := evals s @ [(ctx, xpath)]\<rparr>"
    by (simp add: TextField TextField_value_eq)
  then show ?thesis by blast
next
  case (FloatField xpath)
  have "snd (field_value E f ctx s) = s\<lparr>heap := heap s @ [], evals := evals s @ [(ctx, xpath)]\<rparr>"
    by (simp add: FloatField TextField_value_eq split: sum.splits)
  then show ?thesis by blast
next
  case (IntField xpath)
  have "snd (field_value E f ctx s) = s\<lparr>heap := heap s @ [], evals := evals s @ [(ctx, xpath)]\<rparr>"
    by (simp add: IntField TextField_value_eq split: sum.splits)
  then show ?thesis by blast
next
  case (BooleanField xpath tv fv)
  have "snd (field_value E f ctx s) = s\<lparr>heap := heap s @ [], evals := evals s @ [(ctx, xpath)]\<rparr>"
    by (simp add: BooleanField TextField_value_eq)
  then show ?thesis by blast
next
  case (DatetimeField xpath fmt)
  have "snd (field_value E f ctx s) = s\<lparr>heap := heap s @ [], evals := evals s @ [(ctx, xpath)]\<rparr>"
    by (simp add: DatetimeField TextField_value_eq split: option.splits)
  then show ?thesis by blast
next
  case (NodeExistsField xpath)
  have "snd (field_value E f ctx s) = s\<lparr>heap := heap s @ [], evals := evals s @ [(ctx, xpath)]\<rparr>"
    by (simp add: NodeExistsField xpathEval_call_def)
  then show ?thesis by blast
next
  case (ChildrenField xpath cls)
  have "snd (field_value E f ctx s) =
      s\<lparr>heap := heap s @ [Generator (ChildrenStart xpath cls ctx)], evals := evals s @ []\<rparr>"
    by (simp add: ChildrenField alloc_def)
  then show ?thesis by blast
next
  case (FirstChildField xpath cls)
  show ?thesis
  proof (cases rule: FirstChild_value_cases [of E cls ctx xpath s])
    case absent
    then have "snd (field_value E f ctx s) =
        s\<lparr>heap := heap s @ [],
          evals := evals s @ (ctx, xpath) # map (\<lambda>n. (n, ''.'')) (xpathEval E ctx xpath)\<rparr>"
      by (simp add: FirstChildField)
    then show ?thesis by blast
  next
    case (found m rest ns' tried)
    then have "snd (field_value E f ctx s) =
        s\<lparr>heap := heap s @ new_record_objs cls m (length (heap s)),
          evals := evals s @ (ctx, xpath) # map (\<lambda>n. (n, ''.'')) tried\<rparr>"
      by (simp add: FirstChildField)
    then show ?thesis by blast
  qed
qed

lemma field_value_keeps:
  assumes "lookup l s = Some ob"
  shows "lookup l (snd (field_value E f ctx s)) = Some ob"
proof -
  from assms have lt: "l < length (heap s)" and ob: "heap s ! l = ob"
    by (simp_all add: lookup_def split: if_splits)
  from field_value_frame [of E f ctx s] obtain objs ev where
    "snd (field_value E f ctx s) = s\<lparr>heap := heap s @ objs, evals := evals s @ ev\<rparr>"
    by blast
  with lt ob show ?thesis
    by (simp add: lookup_def nth_append)
qed

lemma field_value_Inl:
  assumes "field_value E f ctx s = (Inl e, s1)"
  shows "field_value E f ctx t = (Inl e, t\<lparr>evals := evals t @ [(ctx, field_xpath f)]\<rparr>)"
proof (cases f)
  case (TextField xpath)
  with assms show ?thesis by (simp add: TextField_value_eq)
next
  case (FloatField xpath)
  with assms show ?thesis by (simp add: TextField_value_eq split: sum.splits)
next
  case (IntField xpath)
  with assms show ?thesis by (simp add: TextField_value_eq split: sum.splits)
next
  case (BooleanField xpath tv fv)
  with assms show ?thesis by (simp add: TextField_value_eq split: if_splits)
next
  case (DatetimeField xpath fmt)
  with assms show ?thesis by (simp add: TextField_value_eq split: option.splits)
next
  case (NodeExistsField xpath)
  with assms show ?thesis by (simp add: xpathEval_call_def)
next
  case (ChildrenField xpath cls)
  with assms show ?thesis by (simp add: alloc_def)
next
  case (FirstChildField xpath cls)
  from assms show ?thesis
    unfolding FirstChildField
    by (cases rule: FirstChild_value_cases [of E cls ctx xpath s]) simp_all
qed

lemma Lazy_call_unset:
  assumes "lookup l s = Some (Lazy PNone ctx f)"
  shows "Lazy_call E l s =
     (case field_value E f ctx s of
        (Inl e, s1) \<Rightarrow> (Inl e, s1)
      | (Inr v, s1) \<Rightarrow> (Inr v, store l (Lazy v ctx f) s1))"
  using assms by (simp add: Lazy_call_def)

lemma Lazy_call_set:
  assumes "lookup l s = Some (Lazy v ctx f)" and "v \<noteq> PNone"
  shows "Lazy_call E l s = (Inr v, s)"
  using assms by (simp add: Lazy_call_def)

lemma lookup_store_same:
  "l < length (heap s) \<Longrightarrow> lookup l (store l ob s) = Some ob"
  by (simp add: lookup_def store_def)

lemma store_same:
  "lookup l s = Some ob \<Longrightarrow> store l ob s = s"
proof -
  assume "lookup l s = Some ob"
  then have "heap s ! l = ob"
    by (simp add: lookup_def split: if_splits)
  then have "(heap s)[l := ob] = heap s"
    by (metis list_update_id)
  then show ?thesis
    by (simp add: store_def)
qed

lemma lookup_evals_update [simp]:
  "lookup l (s\<lparr>evals := ev\<rparr>) = lookup l s"
  by (simp add: lookup_def)

lemma Lazy_call_None:
  assumes c: "lookup l s = Some (Lazy PNone ctx f)"
    and v: "field_value E f ctx s = (Inr PNone, s1)"
  shows "Lazy_call E l s = (Inr PNone, s1)" and "lookup l s1 = Some (Lazy PNone ctx f)"
proof -
  from field_value_keeps [OF c, of E f ctx] v show k: "lookup l s1 = Some (Lazy PNone ctx f)"
    by simp
  from c v have "Lazy_call E l s = (Inr PNone, store l (Lazy PNone ctx f) s1)"
    by (simp add: Lazy_call_unset)
  with store_same [OF k] show "Lazy_call E l s = (Inr PNone, s1)"
    by simp
qed

lemma FirstChild_absent_calls:
  assumes a: "survivors E cls (xpathEval E ctx xpath) = []"
    and c: "lookup l s = Some (Lazy PNone ctx (FirstChildField xpath cls))"
  shows "Lazy_calls E l n s =
     (replicate n (Inr PNone),
      s\<lparr>evals := evals s @
         concat (replicate n ((ctx, xpath) # map (\<lambda>n. (n, ''.'')) (xpathEval E ctx xpath)))\<rparr>)"
  using c
proof (induction n arbitrary: s)
  case 0
  show ?case by simp
next
  case (Suc n)
  let ?ev = "(ctx, xpath) # map (\<lambda>n. (n, ''.'')) (xpathEval E ctx xpath)"
  let ?s1 = "s\<lparr>evals := evals s @ ?ev\<rparr>"
  have v: "field_value E (FirstChildField xpath cls) ctx s = (Inr PNone, ?s1)"
    using a by (cases rule: FirstChild_value_cases [of E cls ctx xpath s]) simp_all
  note one = Lazy_call_None [OF Suc.prems v]
  from Suc.IH [OF one(2)] one(1) show ?case
    by simp
qed


lemma Lazy_call_caches:
  assumes c: "lookup l s = Some (Lazy PNone ctx f)"
    and v: "field_value E f ctx s = (Inr v, s1)" and nn: "v \<noteq> PNone"
  shows "Lazy_call E l s = (Inr v, store l (Lazy v ctx f) s1)"
    and "lookup l (store l (Lazy v ctx f) s1) = Some (Lazy v ctx f)"
    and "Lazy_call E l (store l (Lazy v ctx f) s1) = (Inr v, store l (Lazy v ctx f) s1)"
    and "Lazy_calls E l (Suc n) s = (replicate (Suc n) (Inr v), store l (Lazy v ctx f) s1)"
proof -
  let ?s2 = "store l (Lazy v ctx f) s1"
  from c v show first: "Lazy_call E l s = (Inr v, ?s2)"
    by (simp add: Lazy_call_unset)
  from field_value_keeps [OF c, of E f ctx] v have "l < length (heap s1)"
    by (simp add: lookup_def split: if_splits)
  then show k: "lookup l ?s2 = Some (Lazy v ctx f)"
    by (rule lookup_store_same)
  from k nn show again: "Lazy_call E l ?s2 = (Inr v, ?s2)"
    by (rule Lazy_call_set)
  have "Lazy_calls E l n ?s2 = (replicate n (Inr v), ?s2)"
    by (induction n) (simp_all add: again)
  with first show "Lazy_calls E l (Suc n) s = (replicate (Suc n) (Inr v), ?s2)"
    by simp
qed

section \<open>Facts about the relational fields and about construction\<close>

lemma Children_value_eq:
  "field_value E (ChildrenField xpath cls) ctx s =
     (Inr (PRef (length (heap s))), s\<lparr>heap := heap s @ [Generator (ChildrenStart xpath cls ctx)]\<rparr>)"
  by (simp add: alloc_def)

lemma list_gen_Children:
  assumes g: "lookup g t = Some (Generator (ChildrenStart xpath cls ctx))"
  obtains refs t2 where
    "list_gen E g t = (Inr refs, t2)"
    "map (record_at t2) refs = map (\<lambda>m. Some (cls, m)) (survivors E cls (xpathEval E ctx xpath))"
    "evals t2 = evals t @ (ctx, xpath) # map (\<lambda>n. (n, ''.'')) (xpathEval E ctx xpath)"
    "heap t2 = (heap t)[g := Generator GenDone] @
       alloc_records cls (length (heap t)) (survivors E cls (xpathEval E ctx xpath))"
proof -
  let ?sv = "survivors E cls (xpathEval E ctx xpath)"
  let ?pre = "(heap t)[g := Generator GenDone]"
  let ?refs = "record_refs cls (length (heap t)) ?sv"
  let ?t2 = "t\<lparr>heap := ?pre @ alloc_records cls (length (heap t)) ?sv,
        evals := evals t @ (ctx, xpath) # map (\<lambda>n. (n, ''.'')) (xpathEval E ctx xpath)\<rparr>"
  have l: "list_gen E g t = (Inr ?refs, ?t2)"
    using list_gen_eq [OF g, of cls E] by simp
  have h2: "heap ?t2 = ?pre @ alloc_records cls (length ?pre) ?sv"
    by simp
  from record_at_alloc_records [OF h2]
  have m: "map (record_at ?t2) ?refs = map (\<lambda>m. Some (cls, m)) ?sv"
    by simp
  have e: "evals ?t2 = evals t @ (ctx, xpath) # map (\<lambda>n. (n, ''.'')) (xpathEval E ctx xpath)"
    by simp
  have h: "heap ?t2 = ?pre @ alloc_records cls (length (heap t)) ?sv"
    by simp
  from l m e h show ?thesis by (rule that)
qed

lemma list_gen_done:
  assumes g: "lookup g t = Some (Generator GenDone)"
  shows "list_gen E g t = (Inr [], t)"
proof -
  from g have "(heap t)[g := Generator GenDone] = heap t"
    by (metis store_same store_def lookup_def list_update_id option.inject option.distinct(1))
  then have t: "t\<lparr>heap := (heap t)[g := Generator GenDone]\<rparr> = t"
    by simp
  from g show ?thesis
  proof (cases rule: gen_next_cases [where E = E])
    case stop
    then show ?thesis
      by (subst list_gen.simps) (simp add: t)
  next
    case (yield cls m gs' ev)
    then show ?thesis by simp
  qed
qed

lemma access_new_record:
  assumes d: "distinct (map fst (cls_fields cls))" and i: "i < length (cls_fields cls)"
  shows "access E (fst (XPathRecord_init cls ctx s)) (fst (cls_fields cls ! i))
           (snd (XPathRecord_init cls ctx s)) =
         Lazy_call E (length (heap s) + i) (snd (XPathRecord_init cls ctx s))"
proof -
  let ?k = "length (cls_fields cls)"
  let ?base = "length (heap s)"
  let ?attrs = "zip (map fst (cls_fields cls)) [?base..<?base + ?k]"
  have r: "lookup (?base + ?k) (snd (XPathRecord_init cls ctx s)) = Some (Record cls ctx ?attrs)"
    by (simp add: XPathRecord_init_objs new_record_objs_def lookup_def nth_append)
  have "map_of ?attrs (map fst (cls_fields cls) ! i) = Some ([?base..<?base + ?k] ! i)"
    using d i by (intro map_of_zip_nth) simp_all
  with i have "map_of ?attrs (fst (cls_fields cls ! i)) = Some (?base + i)"
    by simp
  with r show ?thesis
    by (simp add: access_def XPathRecord_init_objs)
qed

lemma new_record_cell:
  assumes i: "i < length (cls_fields cls)"
  shows "lookup (length (heap s) + i) (snd (XPathRecord_init cls ctx s)) =
         Some (Lazy PNone ctx (snd (cls_fields cls ! i)))"
  using i by (simp add: XPathRecord_init_objs new_record_objs_def lookup_def nth_append)

section \<open>Trimming\<close>

text \<open>
  From the spec's words, not from the code: \<open>t\<close> is \<open>s\<close> trimmed when \<open>s\<close> is
  whitespace, then \<open>t\<close>, then whitespace, and \<open>t\<close> neither starts nor ends with
  whitespace.  There is one such \<open>t\<close>, and it is what \<open>strip\<close> computes.
\<close>

definition trimmed :: "(char \<Rightarrow> bool) \<Rightarrow> string \<Rightarrow> string \<Rightarrow> bool" where
  "trimmed ws s t \<longleftrightarrow>
     (\<exists>a b. s = a @ t @ b \<and> list_all ws a \<and> list_all ws b) \<and>
     (t = [] \<or> \<not> ws (hd t) \<and> \<not> ws (last t))"

lemma strip_decompose:
  "s = takeWhile ws s @ strip ws s @ rev (takeWhile ws (rev (dropWhile ws s)))"
proof -
  let ?r = "dropWhile ws s"
  have "?r = rev (takeWhile ws (rev ?r) @ dropWhile ws (rev ?r))"
    by (simp only: takeWhile_dropWhile_id rev_rev_ident)
  then have "?r = strip ws s @ rev (takeWhile ws (rev ?r))"
    by (simp only: rev_append strip_def lstrip_def rstrip_def)
  moreover have "s = takeWhile ws s @ ?r"
    by simp
  ultimately show ?thesis by metis
qed

lemma strip_trimmed: "trimmed ws s (strip ws s)"
proof -
  let ?a = "takeWhile ws s"
  let ?b = "rev (takeWhile ws (rev (dropWhile ws s)))"
  have a: "list_all ws ?a"
    by (auto simp: list_all_iff dest: set_takeWhileD)
  have b: "list_all ws ?b"
    by (auto simp: list_all_iff dest: set_takeWhileD)
  from strip_decompose [of s ws] a b
  have "\<exists>a b. s = a @ strip ws s @ b \<and> list_all ws a \<and> list_all ws b"
    by blast
  moreover have "strip ws s = [] \<or> \<not> ws (hd (strip ws s)) \<and> \<not> ws (last (strip ws s))"
    using strip_no_leading_space [of ws s] strip_no_trailing_space [of ws s] by blast
  ultimately show ?thesis
    unfolding trimmed_def by (rule conjI)
qed

lemma trimmed_unique:
  assumes "trimmed ws s t"
  shows "t = strip ws s"
proof -
  from assms obtain a b where s: "s = a @ t @ b" and a: "list_all ws a" and b: "list_all ws b"
    and e: "t = [] \<or> \<not> ws (hd t) \<and> \<not> ws (last t)"
    unfolding trimmed_def by blast
  from a have da: "dropWhile ws (a @ t @ b) = dropWhile ws (t @ b)"
    by (intro dropWhile_append2) (simp add: list_all_iff)
  from b have rb: "dropWhile ws (rev b @ rev t) = dropWhile ws (rev t)"
    by (intro dropWhile_append2) (simp add: list_all_iff)
  show ?thesis
  proof (cases "t = []")
    case True
    with b have "dropWhile ws (t @ b) = []"
      by (simp add: list_all_iff)
    with True da s show ?thesis
      by (simp add: strip_def lstrip_def rstrip_def del: dropWhile_eq_Nil_conv)
  next
    case False
    with e have h: "\<not> ws (hd t)" and l: "\<not> ws (last t)" by simp_all
    from False h have "dropWhile ws (t @ b) = t @ b"
      by (cases t) simp_all
    with da s have d1: "lstrip ws s = t @ b"
      by (simp add: lstrip_def)
    from False obtain u x where u: "t = u @ [x]"
      by (cases t rule: rev_cases) simp_all
    with l have "dropWhile ws (rev t) = rev t"
      by simp
    with rb have "rev (dropWhile ws (rev (t @ b))) = t"
      by simp
    with d1 show ?thesis
      by (simp add: strip_def rstrip_def)
  qed
qed

lemma trimmed_iff: "trimmed ws s t \<longleftrightarrow> t = strip ws s"
  using strip_trimmed [of ws s] trimmed_unique [of ws s t] by blast

lemma list_all2_eq_map:
  "list_all2 (\<lambda>n core. core = f n) ns cores \<longleftrightarrow> cores = map f ns"
  by (induction ns arbitrary: cores) (auto simp: list_all2_Cons1)

lemma list_all2_trimmed:
  "list_all2 (\<lambda>n core. trimmed ws (c n) core) ns cores \<longleftrightarrow> cores = map (\<lambda>n. strip ws (c n)) ns"
  by (simp add: trimmed_iff list_all2_eq_map)

section \<open>The document and the classes of the repository's tests\<close>

text \<open>
  \<open>SAMPLE_XML\<close> of \<open>test/test_simple.py\<close> with its nodes numbered: 0 is the
  document, 1 \<open>foo\<close>, 2 \<open>name\<close>, 3 to 6 the four \<open>bar\<close>, 7 and 8 the two \<open>baz\<close>,
  62 the \<open>stuff\<close> inside the last \<open>bar\<close>; attribute and text nodes have two
  digits, the first being their element's.  The adapter and the library functions are
  given on what the tests ask of them.  The classes are the tests' \<open>Stuff\<close>, \<open>Bar\<close>,
  \<open>Baz\<close> and \<open>Foo\<close>; \<open>Bar.record_filter\<close> accepts the nodes whose \<open>arg\<close> is
  an integer.
\<close>

definition sample_xpathEval :: "nat \<Rightarrow> string \<Rightarrow> nat list" where
  "sample_xpathEval n xpath =
     (if xpath = ''.'' then [n]
      else if n = 0 \<and> xpath = ''/foo'' then [1]
      else if n = 0 \<and> xpath = ''//bar'' then [3, 4, 5, 6]
      else if n = 0 \<and> xpath = ''//baz'' then [7, 8]
      else if n = 1 \<and> xpath = ''name/text()'' then [21]
      else if n = 1 \<and> xpath = ''name/@date'' then [20]
      else if n = 1 \<and> xpath = ''bar'' then [3, 4, 5, 6]
      else if n = 1 \<and> xpath = ''baz'' then [7, 8]
      else if n \<in> {3, 4, 5, 6} \<and> xpath = ''@arg'' then [10 * n]
      else if n \<in> {3, 4, 5, 6} \<and> xpath = ''@date'' then [10 * n + 1]
      else if n = 6 \<and> xpath = ''stuff'' then [62]
      else if n = 6 \<and> xpath = ''stuff/text()'' then [63]
      else if n = 62 \<and> xpath = ''text()'' then [63]
      else if n \<in> {7, 8} \<and> xpath = ''@bool'' then [10 * n]
      else if n \<in> {7, 8} \<and> xpath = ''@average'' then [10 * n + 1]
      else if n \<in> {7, 8} \<and> xpath = ''text()'' then [10 * n + 2]
      else [])"

definition sample_content :: "nat \<Rightarrow> string" where
  "sample_content n =
     (if n = 20 then ''Bogus Format''
      else if n = 21 then ''This is my name''
      else if n = 30 then ''1''
      else if n = 31 then ''20061028''
      else if n = 40 then ''2''
      else if n = 41 then ''2006-10-28''
      else if n = 50 then ''stuff''
      else if n = 51 then ''10/28/2006''
      else if n = 60 then ''3''
      else if n = 61 then ''2006-10-28 00:00:00''
      else if n = 63 then ''I am inside bar''
      else if n = 70 then ''y''
      else if n = 71 then ''1.234''
      else if n = 72 then ''Hello World''
      else if n = 80 then ''whatever''
      else if n = 81 then ''badfloat''
      else if n = 82 then ''Goodbye World''
      else [])"

definition sample_int :: "string \<Rightarrow> error + int" where
  "sample_int t =
     (if t = ''1'' then Inr 1 else if t = ''2'' then Inr 2 else if t = ''3'' then Inr 3
      else Inl (ValueError (''invalid literal for int() with base 10: '' @ t)))"

definition sample_float :: "string \<Rightarrow> error + int \<times> nat" where
  "sample_float t =
     (if t = ''1.234'' then Inr (1234, 3)
      else Inl (ValueError (''could not convert string to float: '' @ t)))"

definition sample_strptime :: "string \<Rightarrow> string \<Rightarrow> (nat \<times> nat \<times> nat \<times> nat \<times> nat \<times> nat) option" where
  "sample_strptime t fmt =
     (if (t, fmt) \<in> {(''20061028'', ''%Y%m%d''), (''2006-10-28'', ''%Y-%m-%d''),
                     (''10/28/2006'', ''%m/%d/%Y''), (''2006-10-28 00:00:00'', ''%Y-%m-%d %H:%M:%S'')}
      then Some (2006, 10, 28, 0, 0, 0) else None)"

definition sample :: "(nat, int \<times> nat, nat \<times> nat \<times> nat \<times> nat \<times> nat \<times> nat) ext" where
  "sample = \<lparr>xpathEval = sample_xpathEval, content = sample_content, py_int = sample_int,
             py_float = sample_float, strptime = sample_strptime,
             isspace = ascii_isspace, lower = ascii_lower\<rparr>"

definition Stuff :: "nat rcls" where
  "Stuff = XPathRecord [(''text'', TextField ''text()'')] default_record_filter"

definition Bar :: "nat rcls" where
  "Bar = XPathRecord
     [(''arg'', TextField ''@arg''),
      (''date'', DatetimeField_init ''@date'' (FormatStr ''junk'')),
      (''has_stuff'', NodeExistsField ''stuff/text()''),
      (''int_arg'', IntField ''@arg''),
      (''stuff'', TextField ''stuff/text()''),
      (''stuffs'', ChildrenField ''stuff'' Stuff),
      (''textbool'', BooleanField_init sample ''stuff/text()'' (Some [''i am inside bar'']) (Some [[]]))]
     (\<lambda>node. node \<in> {3, 4, 6})"

definition Baz :: "nat rcls" where
  "Baz = XPathRecord
     [(''average'', FloatField ''@average''),
      (''boolean'', BooleanField_init sample ''@bool'' None None),
      (''content'', TextField ''text()'')]
     default_record_filter"

definition Foo :: "nat rcls" where
  "Foo = XPathRecord
     [(''bar'', ChildrenField ''bar'' Bar),
      (''baz'', FirstChildField ''baz'' Baz),
      (''date'', DatetimeField_init ''name/@date'' default_format),
      (''name'', TextField ''name/text()'')]
     default_record_filter"

definition start :: "(nat, int \<times> nat, nat \<times> nat \<times> nat \<times> nat \<times> nat \<times> nat) state" where
  "start = \<lparr>heap = [], evals = []\<rparr>"


section \<open>The claims\<close>

text \<open>
  C6.  \<open>records(rootNode, xpath)\<close> makes a generator and runs nothing (no adapter
  call, no record); the first \<open>next\<close> builds one record, over the first accepted node;
  run to its end the generator evaluates the xpath once and yields one new record
  instance per node the filter accepts, in result order; a second call of \<open>records\<close>
  starts over and yields new records over the same nodes; with the default
  \<open>record_filter\<close> every node is accepted.
\<close>

theorem records_factory:
  fixes E :: "('n, 'f, 'd) ext" and s :: "('n, 'f, 'd) state"
  shows "\<exists>refs s2 refs' s3.
     records cls ctx xpath s =
       (length (heap s), s\<lparr>heap := heap s @ [Generator (RecordsStart cls ctx xpath)]\<rparr>) \<and>
     (case filter (record_filter cls) (xpathEval E ctx xpath) of
        [] \<Rightarrow> fst (gen_next E (fst (records cls ctx xpath s)) (snd (records cls ctx xpath s))) = Inr None
      | m # rest \<Rightarrow>
         (\<exists>x s'. gen_next E (fst (records cls ctx xpath s)) (snd (records cls ctx xpath s)) = (Inr (Some x), s')
            \<and> record_at s' x = Some (cls, m)
            \<and> length (heap s') = length (heap s) + 1 + Suc (length (cls_fields cls)))) \<and>
     list_gen E (fst (records cls ctx xpath s)) (snd (records cls ctx xpath s)) = (Inr refs, s2) \<and>
     map (record_at s2) refs =
       map (\<lambda>m. Some (cls, m)) (filter (record_filter cls) (xpathEval E ctx xpath)) \<and>
     distinct refs \<and> (\<forall>r \<in> set refs. length (heap s) < r) \<and>
     evals s2 = evals s @ [(ctx, xpath)] \<and>
     list_gen E (fst (records cls ctx xpath s2)) (snd (records cls ctx xpath s2)) = (Inr refs', s3) \<and>
     map (record_at s3) refs' = map (record_at s2) refs \<and>
     (\<forall>r \<in> set refs'. r \<notin> set refs) \<and>
     (record_filter cls = default_record_filter \<longrightarrow>
        map (record_at s2) refs = map (\<lambda>m. Some (cls, m)) (xpathEval E ctx xpath))"
proof -
  obtain refs s2 where a:
    "list_gen E (fst (records cls ctx xpath s)) (snd (records cls ctx xpath s)) = (Inr refs, s2)"
    "map (record_at s2) refs =
       map (\<lambda>m. Some (cls, m)) (filter (record_filter cls) (xpathEval E ctx xpath))"
    "distinct refs" "\<forall>r \<in> set refs. length (heap s) < r"
    "evals s2 = evals s @ [(ctx, xpath)]"
    by (rule records_list_gen [of E cls ctx xpath s])
  obtain refs' s3 where b:
    "list_gen E (fst (records cls ctx xpath s2)) (snd (records cls ctx xpath s2)) = (Inr refs', s3)"
    "map (record_at s3) refs' =
       map (\<lambda>m. Some (cls, m)) (filter (record_filter cls) (xpathEval E ctx xpath))"
    "\<forall>r \<in> set refs'. length (heap s2) < r"
    by (rule records_list_gen [of E cls ctx xpath s2])
  have old: "\<forall>r \<in> set refs. r < length (heap s2)"
  proof
    fix r assume r: "r \<in> set refs"
    then obtain i where i: "i < length refs" "refs ! i = r"
      by (auto simp: in_set_conv_nth)
    from a(2) have "length refs = length (filter (record_filter cls) (xpathEval E ctx xpath))"
      by (rule map_eq_imp_length_eq)
    with i a(2) have "record_at s2 r = Some (cls, filter (record_filter cls) (xpathEval E ctx xpath) ! i)"
      by (metis nth_map)
    then show "r < length (heap s2)"
      by (auto simp: record_at_def lookup_def split: if_splits)
  qed
  have fresh: "\<forall>r \<in> set refs'. r \<notin> set refs"
    using old b(3) by fastforce
  have df: "record_filter cls = default_record_filter \<longrightarrow>
        map (record_at s2) refs = map (\<lambda>m. Some (cls, m)) (xpathEval E ctx xpath)"
    using a(2) by (simp add: default_record_filter_eq)
  have m2: "map (record_at s3) refs' = map (record_at s2) refs"
    using a(2) b(2) by simp
  from records_eq [of cls ctx xpath s] records_first_next [where E = E and cls = cls and ctx = ctx and xpath = xpath and s = s] a b(1) m2 fresh df
  show ?thesis by blast
qed

theorem records_factory_witness:
  "\<exists>refs s2.
     list_gen sample (fst (records Baz 0 ''//baz'' start)) (snd (records Baz 0 ''//baz'' start)) = (Inr refs, s2) \<and>
     map (record_at s2) refs = [Some (Baz, 7), Some (Baz, 8)] \<and>
     evals s2 = [(0, ''//baz'')]"
proof -
  have f: "record_filter Baz = default_record_filter"
    by (simp add: Baz_def)
  have x: "xpathEval sample 0 ''//baz'' = [7, 8]"
    by (simp add: sample_def sample_xpathEval_def)
  from records_factory [of Baz 0 "''//baz''" start sample] f x show ?thesis
    by (auto simp: start_def)
qed

text \<open>
  A document whose text nodes carry whitespace: under the context node 0 the XPath
  \<open>//a/text()\<close> yields three text nodes, \<open>" x "\<close>, a tab then \<open>"y z"\<close> then a
  newline, and three spaces; every other XPath yields nothing.
\<close>

definition padded :: "(nat, int \<times> nat, nat \<times> nat \<times> nat \<times> nat \<times> nat \<times> nat) ext" where
  "padded = sample
     \<lparr>xpathEval := (\<lambda>n xpath. if n = 0 \<and> xpath = ''//a/text()'' then [1, 2, 3] else []),
      content := (\<lambda>n. if n = 1 then '' x ''
                      else if n = 2 then [CHR 0x09] @ ''y z'' @ [CHR 0x0A]
                      else if n = 3 then ''   '' else [])\<rparr>"

text \<open>
  C3.  The value of a Text field is never an error and takes one adapter call.  It is
  the string \<open>t\<close> that the spec describes: take the content of each node the XPath
  yields, trimmed, in result order (\<open>cores\<close>), concatenate, and trim again.  Any
  strings obtained by these words are the ones the code computes, so the value is
  determined by them; with no result node it is the empty string.
\<close>

theorem TextField_value_trimmed_concat:
  "\<exists>cores t.
     field_value E (TextField xpath) ctx s = (Inr (PStr t), s\<lparr>evals := evals s @ [(ctx, xpath)]\<rparr>) \<and>
     list_all2 (\<lambda>n core. trimmed (isspace E) (content E n) core) (xpathEval E ctx xpath) cores \<and>
     trimmed (isspace E) (concat cores) t \<and>
     t = strip (isspace E) (concat (map (\<lambda>n. strip (isspace E) (content E n)) (xpathEval E ctx xpath))) \<and>
     (xpathEval E ctx xpath = [] \<longrightarrow> t = []) \<and>
     (\<forall>cores' t'.
        list_all2 (\<lambda>n core. trimmed (isspace E) (content E n) core) (xpathEval E ctx xpath) cores' \<and>
        trimmed (isspace E) (concat cores') t' \<longrightarrow> t' = t) \<and>
     (\<forall>e. fst (field_value E (TextField xpath) ctx s) \<noteq> Inl e)"
proof -
  let ?ws = "isspace E"
  let ?cores = "map (\<lambda>n. strip ?ws (content E n)) (xpathEval E ctx xpath)"
  let ?t = "strip ?ws (concat ?cores)"
  have v: "field_value E (TextField xpath) ctx s = (Inr (PStr ?t), s\<lparr>evals := evals s @ [(ctx, xpath)]\<rparr>)"
    by (simp add: TextField_value_eq)
  have c: "list_all2 (\<lambda>n core. trimmed ?ws (content E n) core) (xpathEval E ctx xpath) ?cores"
    by (simp add: list_all2_trimmed)
  have t: "trimmed ?ws (concat ?cores) ?t"
    by (rule strip_trimmed)
  have z: "xpathEval E ctx xpath = [] \<longrightarrow> ?t = []"
    by simp
  have u: "\<forall>cores' t'.
        list_all2 (\<lambda>n core. trimmed ?ws (content E n) core) (xpathEval E ctx xpath) cores' \<and>
        trimmed ?ws (concat cores') t' \<longrightarrow> t' = ?t"
    by (simp add: trimmed_iff list_all2_eq_map)
  have n: "\<forall>e. fst (field_value E (TextField xpath) ctx s) \<noteq> Inl e"
    by (simp only: v fst_conv) simp
  from v c t z u n show ?thesis
    by (intro exI [of _ ?cores] exI [of _ ?t] conjI refl)
qed

theorem TextField_value_trimmed_concat_witness:
  "xpathEval padded 0 ''//a/text()'' = [1, 2, 3] \<and>
   content padded 1 = '' x '' \<and>
   content padded 2 = [CHR 0x09] @ ''y z'' @ [CHR 0x0A] \<and>
   content padded 3 = ''   '' \<and>
   fst (field_value padded (TextField ''//a/text()'') 0 start) = Inr (PStr ''xy z'') \<and>
   xpathEval padded 0 ''b'' = [] \<and>
   fst (field_value padded (TextField ''b'') 0 start) = Inr (PStr [])"
proof -
  have x: "xpathEval padded 0 ''//a/text()'' = [1, 2, 3]" "xpathEval padded 0 ''b'' = []"
    and c: "content padded 1 = '' x ''" "content padded 2 = [CHR 0x09] @ ''y z'' @ [CHR 0x0A]"
      "content padded 3 = ''   ''"
    and w: "isspace padded = ascii_isspace"
    by (simp_all add: padded_def sample_def)
  have sp: "ascii_isspace CHR '' ''" "ascii_isspace (CHR 0x09)" "ascii_isspace (CHR 0x0A)"
    "\<not> ascii_isspace CHR ''x''" "\<not> ascii_isspace CHR ''y''" "\<not> ascii_isspace CHR ''z''"
    by (simp_all add: ascii_isspace_def)
  have t1: "trimmed ascii_isspace '' x '' ''x''"
    unfolding trimmed_def
    by (intro conjI exI [of _ "'' ''"]) (simp_all add: sp)
  have t2: "trimmed ascii_isspace ([CHR 0x09] @ ''y z'' @ [CHR 0x0A]) ''y z''"
    unfolding trimmed_def
    by (intro conjI exI [of _ "[CHR 0x09]"] exI [of _ "[CHR 0x0A]"]) (simp_all add: sp)
  have t3: "trimmed ascii_isspace ''   '' []"
    unfolding trimmed_def
    by (intro conjI exI [of _ "[]"] exI [of _ "''   ''"]) (simp_all add: sp)
  have t4: "trimmed ascii_isspace (concat [''x'', ''y z'', []]) ''xy z''"
    unfolding trimmed_def
    by (intro conjI exI [of _ "[]"]) (simp_all add: sp)
  from TextField_value_trimmed_concat [where E = padded and xpath = "''//a/text()''" and ctx = 0 and s = start]
  obtain cores t where
    v: "field_value padded (TextField ''//a/text()'') 0 start =
          (Inr (PStr t), start\<lparr>evals := evals start @ [(0, ''//a/text()'')]\<rparr>)"
    and u: "\<forall>cores' t'.
        list_all2 (\<lambda>n core. trimmed (isspace padded) (content padded n) core)
          (xpathEval padded 0 ''//a/text()'') cores' \<and>
        trimmed (isspace padded) (concat cores') t' \<longrightarrow> t' = t"
    by blast
  have "list_all2 (\<lambda>n core. trimmed (isspace padded) (content padded n) core)
          (xpathEval padded 0 ''//a/text()'') [''x'', ''y z'', []]"
    using t1 t2 t3 c by (simp add: x w)
  with u t4 have "''xy z'' = t"
    by (simp only: w)
  with v have r1: "fst (field_value padded (TextField ''//a/text()'') 0 start) = Inr (PStr ''xy z'')"
    by simp
  from TextField_value_trimmed_concat [where E = padded and xpath = "''b''" and ctx = 0 and s = start]
  obtain cores' t' where
    v': "field_value padded (TextField ''b'') 0 start =
          (Inr (PStr t'), start\<lparr>evals := evals start @ [(0, ''b'')]\<rparr>)"
    and z: "xpathEval padded 0 ''b'' = [] \<longrightarrow> t' = []"
    by blast
  from z x(2) v' have r2: "fst (field_value padded (TextField ''b'') 0 start) = Inr (PStr [])"
    by simp
  from x c r1 r2 show ?thesis by blast
qed

text \<open>Unfolding facts for the sample document and the string primitives.\<close>

lemmas sample_defs = sample_def sample_xpathEval_def sample_content_def sample_int_def
  sample_float_def sample_strptime_def start_def

lemmas string_defs = strip_def lstrip_def rstrip_def ascii_isspace_def ascii_lower_def ascii_lower_char_def


text \<open>
  C8.  When the field's value computation raises, \<open>Lazy.__call__\<close> raises the same
  exception and assigns nothing: the cell still holds \<open>None\<close>.  The next call
  computes the value again, with one more adapter call, and raises again; so does each
  of any number of calls.
\<close>

theorem Lazy_failure_not_cached:
  assumes c: "lookup l s = Some (Lazy PNone ctx f)"
    and v: "field_value E f ctx s = (Inl e, s1)"
  shows "Lazy_call E l s = (Inl e, s1) \<and>
     lookup l s1 = Some (Lazy PNone ctx f) \<and>
     Lazy_call E l s1 = (Inl e, s1\<lparr>evals := evals s1 @ [(ctx, field_xpath f)]\<rparr>) \<and>
     Lazy_calls E l n s =
       (replicate n (Inl e), s\<lparr>evals := evals s @ replicate n (ctx, field_xpath f)\<rparr>)"
proof -
  have one: "Lazy_call E l t = (Inl e, t\<lparr>evals := evals t @ [(ctx, field_xpath f)]\<rparr>)"
    if "lookup l t = Some (Lazy PNone ctx f)" for t :: "('a, 'b, 'c) state"
    using that by (simp add: Lazy_call_unset field_value_Inl [OF v])
  have many: "Lazy_calls E l n t =
       (replicate n (Inl e), t\<lparr>evals := evals t @ replicate n (ctx, field_xpath f)\<rparr>)"
    if "lookup l t = Some (Lazy PNone ctx f)" for t :: "('a, 'b, 'c) state"
    using that
  proof (induction n arbitrary: t)
    case 0
    show ?case by simp
  next
    case (Suc n)
    let ?t1 = "t\<lparr>evals := evals t @ [(ctx, field_xpath f)]\<rparr>"
    from Suc.prems have "lookup l ?t1 = Some (Lazy PNone ctx f)" by simp
    from Suc.IH [OF this] one [OF Suc.prems] show ?case
      by (simp add: replicate_app_Cons_same)
  qed
  from field_value_keeps [OF c, of E f ctx] v have k: "lookup l s1 = Some (Lazy PNone ctx f)"
    by simp
  from c v have "Lazy_call E l s = (Inl e, s1)"
    by (simp add: Lazy_call_unset)
  with k one [OF k] many [OF c] show ?thesis by simp
qed

theorem Lazy_failure_not_cached_witness:
  "lookup 1 (snd (XPathRecord_init Baz 8 start)) = Some (Lazy PNone 8 (BooleanField_init sample ''@bool'' None None)) \<and>
   fst (field_value sample (BooleanField_init sample ''@bool'' None None) 8 (snd (XPathRecord_init Baz 8 start))) =
     Inl (ValueError ''The value (whatever) is neither true nor false'') \<and>
   fst (Lazy_call sample 1 (snd (XPathRecord_init Baz 8 start))) =
     Inl (ValueError ''The value (whatever) is neither true nor false'') \<and>
   fst (Lazy_calls sample 1 3 (snd (XPathRecord_init Baz 8 start))) =
     replicate 3 (Inl (ValueError ''The value (whatever) is neither true nor false'')) \<and>
   evals (snd (Lazy_calls sample 1 3 (snd (XPathRecord_init Baz 8 start)))) =
     replicate 3 (8, ''@bool'')"
proof -
  let ?s = "snd (XPathRecord_init Baz 8 start)"
  let ?f = "BooleanField_init sample ''@bool'' None None :: nat field"
  let ?e = "ValueError ''The value (whatever) is neither true nor false''"
  have c: "lookup 1 ?s = Some (Lazy PNone 8 ?f)"
    by (simp add: XPathRecord_init_objs new_record_objs_def Baz_def lookup_def start_def)
  have v: "field_value sample ?f 8 ?s = (Inl ?e, snd (field_value sample ?f 8 ?s))"
    by (simp add: BooleanField_init_def DEFAULT_TRUE_VALUES_def DEFAULT_FALSE_VALUES_def
        TextField_value_eq sample_defs string_defs)
  have x: "field_xpath ?f = ''@bool''"
    by (simp add: BooleanField_init_def)
  have e: "evals ?s = []"
    by (simp add: XPathRecord_init_objs start_def)
  have v1: "fst (field_value sample ?f 8 ?s) = Inl ?e"
    using v by (rule arg_cong [where f = fst, THEN trans]) simp
  from Lazy_failure_not_cached [OF c v, of 3] have
    "fst (Lazy_call sample 1 ?s) = Inl ?e \<and>
     fst (Lazy_calls sample 1 3 ?s) = replicate 3 (Inl ?e) \<and>
     evals (snd (Lazy_calls sample 1 3 ?s)) = replicate 3 (8, ''@bool'')"
    by (simp add: x e)
  with c v1 show ?thesis by blast
qed

text \<open>
  A class for the cases the tests leave out: a \<open>FirstChildField\<close> and a
  \<open>ChildrenField\<close> over the \<open>stuff\<close> children of a \<open>bar\<close>.
\<close>

definition Probe :: "nat rcls" where
  "Probe = XPathRecord
     [(''first_stuff'', FirstChildField ''stuff'' Stuff),
      (''stuffs'', ChildrenField ''stuff'' Stuff)]
     default_record_filter"

text \<open>
  C10.  When no outer match yields a sub-record that survives the filter,
  \<open>FirstChildField.value\<close> returns \<open>None\<close>, the very value \<open>Lazy\<close> takes for an
  empty cache: after the call the cell is as before, and each of any number of calls
  evaluates the field's XPath, and \<open>'.'\<close> on each outer match, again.  The same holds
  for any field and any cell whose value computation returns \<open>None\<close>.
\<close>

theorem FirstChild_absent_not_cached:
  assumes c: "lookup l s = Some (Lazy PNone ctx (FirstChildField xpath cls))"
    and a: "survivors E cls (xpathEval E ctx xpath) = []"
  shows "field_value E (FirstChildField xpath cls) ctx s =
       (Inr PNone, s\<lparr>evals := evals s @ (ctx, xpath) # map (\<lambda>n. (n, ''.'')) (xpathEval E ctx xpath)\<rparr>) \<and>
     Lazy_call E l s =
       (Inr PNone, s\<lparr>evals := evals s @ (ctx, xpath) # map (\<lambda>n. (n, ''.'')) (xpathEval E ctx xpath)\<rparr>) \<and>
     lookup l (snd (Lazy_call E l s)) = Some (Lazy PNone ctx (FirstChildField xpath cls)) \<and>
     Lazy_calls E l n s =
       (replicate n (Inr PNone),
        s\<lparr>evals := evals s @
           concat (replicate n ((ctx, xpath) # map (\<lambda>n. (n, ''.'')) (xpathEval E ctx xpath)))\<rparr>) \<and>
     (lookup l' t = Some (Lazy PNone ctx' f) \<and> field_value E f ctx' t = (Inr PNone, t1) \<longrightarrow>
        Lazy_call E l' t = (Inr PNone, t1) \<and> lookup l' t1 = Some (Lazy PNone ctx' f))"
proof -
  let ?s1 = "s\<lparr>evals := evals s @ (ctx, xpath) # map (\<lambda>n. (n, ''.'')) (xpathEval E ctx xpath)\<rparr>"
  have v: "field_value E (FirstChildField xpath cls) ctx s = (Inr PNone, ?s1)"
    using a by (cases rule: FirstChild_value_cases [of E cls ctx xpath s]) simp_all
  note one = Lazy_call_None [OF c v]
  have g: "lookup l' t = Some (Lazy PNone ctx' f) \<and> field_value E f ctx' t = (Inr PNone, t1) \<longrightarrow>
        Lazy_call E l' t = (Inr PNone, t1) \<and> lookup l' t1 = Some (Lazy PNone ctx' f)"
    using Lazy_call_None [of l' t ctx' f E t1] by blast
  from v one FirstChild_absent_calls [OF a c, of n] g show ?thesis
    by simp
qed

theorem FirstChild_absent_not_cached_witness:
  "lookup 0 (snd (XPathRecord_init Probe 3 start)) = Some (Lazy PNone 3 (FirstChildField ''stuff'' Stuff)) \<and>
   survivors sample Stuff (xpathEval sample 3 ''stuff'') = [] \<and>
   fst (Lazy_call sample 0 (snd (XPathRecord_init Probe 3 start))) = Inr PNone \<and>
   fst (Lazy_calls sample 0 3 (snd (XPathRecord_init Probe 3 start))) = replicate 3 (Inr PNone) \<and>
   evals (snd (Lazy_calls sample 0 3 (snd (XPathRecord_init Probe 3 start)))) =
     concat (replicate 3 [(3, ''stuff'')])"
proof -
  let ?s = "snd (XPathRecord_init Probe 3 start)"
  have c: "lookup 0 ?s = Some (Lazy PNone 3 (FirstChildField ''stuff'' Stuff))"
    by (simp add: XPathRecord_init_objs new_record_objs_def Probe_def lookup_def start_def)
  have x: "xpathEval sample 3 ''stuff'' = []"
    by (simp add: sample_defs)
  have a: "survivors sample Stuff (xpathEval sample 3 ''stuff'') = []"
    by (simp add: x survivors_def)
  have e: "evals ?s = []"
    by (simp add: XPathRecord_init_objs start_def)
  from FirstChild_absent_not_cached [OF c a, of 3] have
    "fst (Lazy_call sample 0 ?s) = Inr PNone \<and>
     fst (Lazy_calls sample 0 3 ?s) = replicate 3 (Inr PNone) \<and>
     evals (snd (Lazy_calls sample 0 3 ?s)) = concat (replicate 3 [(3, ''stuff'')])"
    by (simp add: x e)
  with c a show ?thesis by blast
qed




text \<open>
  What the code does at a Children accessor, for every record and document.  The first
  access calls the generator function \<open>ChildrenField.value\<close>: it makes a new
  generator object and evaluates no XPath.  The object is not \<open>None\<close>, so \<open>Lazy\<close>
  stores it like any other value, and every later access returns the same object and
  evaluates nothing.  Run to its end, the generator evaluates the field's XPath once
  and \<open>'.'\<close> once on each outer match, and yields one sub-record per surviving node,
  in document order; from then on the stored generator yields nothing.
\<close>

lemma Children_generator_cached:
  assumes c: "lookup l s = Some (Lazy PNone ctx (ChildrenField xpath cls))"
  shows "\<exists>g s1 refs s2.
     Lazy_call E l s = (Inr (PRef g), s1) \<and>
     lookup g s = None \<and>
     lookup g s1 = Some (Generator (ChildrenStart xpath cls ctx)) \<and>
     evals s1 = evals s \<and>
     Lazy_call E l s1 = (Inr (PRef g), s1) \<and>
     list_gen E g s1 = (Inr refs, s2) \<and>
     map (record_at s2) refs = map (\<lambda>m. Some (cls, m)) (survivors E cls (xpathEval E ctx xpath)) \<and>
     evals s2 = evals s @ (ctx, xpath) # map (\<lambda>n. (n, ''.'')) (xpathEval E ctx xpath) \<and>
     Lazy_call E l s2 = (Inr (PRef g), s2) \<and>
     list_gen E g s2 = (Inr [], s2)"
proof -
  let ?f = "ChildrenField xpath cls"
  let ?g = "length (heap s)"
  let ?s0 = "s\<lparr>heap := heap s @ [Generator (ChildrenStart xpath cls ctx)]\<rparr>"
  let ?s1 = "store l (Lazy (PRef ?g) ctx ?f) ?s0"
  from c have lt: "l < length (heap s)"
    by (simp add: lookup_def split: if_splits)
  have v: "field_value E ?f ctx s = (Inr (PRef ?g), ?s0)"
    by (rule Children_value_eq)
  have nn: "PRef ?g \<noteq> (PNone :: ('b, 'c) pyval)" by simp
  note cached = Lazy_call_caches [OF c v nn]
  have fresh: "lookup ?g s = None"
    by (simp add: lookup_def)
  have g1: "lookup ?g ?s1 = Some (Generator (ChildrenStart xpath cls ctx))"
    using lt by (simp add: lookup_def store_def)
  have e1: "evals ?s1 = evals s"
    by (simp add: store_def)
  obtain refs s2 where d:
    "list_gen E ?g ?s1 = (Inr refs, s2)"
    "map (record_at s2) refs = map (\<lambda>m. Some (cls, m)) (survivors E cls (xpathEval E ctx xpath))"
    "evals s2 = evals ?s1 @ (ctx, xpath) # map (\<lambda>n. (n, ''.'')) (xpathEval E ctx xpath)"
    "heap s2 = (heap ?s1)[?g := Generator GenDone] @
       alloc_records cls (length (heap ?s1)) (survivors E cls (xpathEval E ctx xpath))"
    by (rule list_gen_Children [OF g1, of E])
  from d(4) lt have l2: "lookup l s2 = Some (Lazy (PRef ?g) ctx ?f)"
    by (simp add: lookup_def store_def nth_append)
  from d(4) have g2: "lookup ?g s2 = Some (Generator GenDone)"
    by (simp add: lookup_def store_def nth_append)
  from l2 nn have a2: "Lazy_call E l s2 = (Inr (PRef ?g), s2)"
    by (rule Lazy_call_set)
  from g2 have d2: "list_gen E ?g s2 = (Inr [], s2)"
    by (rule list_gen_done)
  from d(3) have d3: "evals s2 = evals s @ (ctx, xpath) # map (\<lambda>n. (n, ''.'')) (xpathEval E ctx xpath)"
    by (simp add: e1)
  show ?thesis
    by (rule exI [of _ ?g], rule exI [of _ ?s1], rule exI [of _ refs], rule exI [of _ s2])
      (simp only: cached(1) fresh g1 e1 cached(3) d(1,2) d3 a2 d2 simp_thms)
qed

text \<open>
  The last \<open>bar\<close> of the sample document as a \<open>Bar\<close> record (its \<open>stuffs\<close> cell is
  object 5), the state after \<open>bar.stuffs()\<close>, and the state after
  \<open>list(bar.stuffs())\<close>.
\<close>

definition bar6 :: "(nat, int \<times> nat, nat \<times> nat \<times> nat \<times> nat \<times> nat \<times> nat) state" where
  "bar6 = snd (XPathRecord_init Bar 6 start)"

definition bar6_stuffs :: "(nat, int \<times> nat, nat \<times> nat \<times> nat \<times> nat \<times> nat \<times> nat) state" where
  "bar6_stuffs = snd (Lazy_call sample 5 bar6)"

definition bar6_listed :: "(nat, int \<times> nat, nat \<times> nat \<times> nat \<times> nat \<times> nat \<times> nat) state" where
  "bar6_listed = snd (list_gen sample 8 bar6_stuffs)"

lemma bar6_cell:
  "lookup 5 bar6 = Some (Lazy PNone 6 (ChildrenField ''stuff'' Stuff))"
  "length (heap bar6) = 8" "evals bar6 = []"
  by (simp_all add: bar6_def XPathRecord_init_objs new_record_objs_def Bar_def lookup_def start_def)

lemma sample_stuff_survivors:
  "xpathEval sample 6 ''stuff'' = [62]"
  "survivors sample Stuff [62] = [62]"
  by (simp_all add: survivors_def sample_defs Stuff_def default_record_filter_def)

lemma bar6_first_access:
  "Lazy_call sample 5 bar6 = (Inr (PRef 8), bar6_stuffs)"
  "lookup 5 bar6_stuffs = Some (Lazy (PRef 8) 6 (ChildrenField ''stuff'' Stuff))"
  "lookup 8 bar6_stuffs = Some (Generator (ChildrenStart ''stuff'' Stuff 6))"
  "length (heap bar6_stuffs) = 9" "evals bar6_stuffs = []"
proof -
  let ?f = "ChildrenField ''stuff'' Stuff :: nat field"
  let ?s0 = "bar6\<lparr>heap := heap bar6 @ [Generator (ChildrenStart ''stuff'' Stuff 6)]\<rparr>"
  have v: "field_value sample ?f 6 bar6 = (Inr (PRef 8), ?s0)"
    by (simp add: alloc_def bar6_cell)
  have nn: "PRef 8 \<noteq> (PNone :: (int \<times> nat, nat \<times> nat \<times> nat \<times> nat \<times> nat \<times> nat) pyval)"
    by simp
  note cached = Lazy_call_caches [OF bar6_cell(1) v nn]
  from cached(1) have eq: "bar6_stuffs = store 5 (Lazy (PRef 8) 6 ?f) ?s0"
    by (simp add: bar6_stuffs_def)
  from cached(1) eq show "Lazy_call sample 5 bar6 = (Inr (PRef 8), bar6_stuffs)"
    by simp
  from cached(2) eq show "lookup 5 bar6_stuffs = Some (Lazy (PRef 8) 6 ?f)"
    by simp
  show "lookup 8 bar6_stuffs = Some (Generator (ChildrenStart ''stuff'' Stuff 6))"
    by (simp add: eq lookup_def store_def bar6_cell nth_append)
  show "length (heap bar6_stuffs) = 9"
    by (simp add: eq store_def bar6_cell)
  show "evals bar6_stuffs = []"
    by (simp add: eq store_def bar6_cell)
qed

lemma bar6_first_listing:
  "list_gen sample 8 bar6_stuffs = (Inr [10], bar6_listed)"
  "lookup 5 bar6_listed = Some (Lazy (PRef 8) 6 (ChildrenField ''stuff'' Stuff))"
  "lookup 8 bar6_listed = Some (Generator GenDone)"
  "evals bar6_listed = [(6, ''stuff''), (62, ''.'')]"
proof -
  have c: "gen_class (ChildrenStart ''stuff'' Stuff 6) = Some Stuff"
    by simp
  note l = list_gen_eq [OF bar6_first_access(3) c, of sample]
  have k: "length (cls_fields Stuff) = 1"
    by (simp add: Stuff_def)
  from l have r: "fst (list_gen sample 8 bar6_stuffs) = Inr [10]"
    by (simp add: sample_stuff_survivors bar6_first_access k)
  from l have h: "heap bar6_listed =
      (heap bar6_stuffs)[8 := Generator GenDone] @ new_record_objs Stuff 62 9"
    by (simp add: bar6_listed_def sample_stuff_survivors bar6_first_access)
  from l show e: "evals bar6_listed = [(6, ''stuff''), (62, ''.'')]"
    by (simp add: bar6_listed_def sample_stuff_survivors bar6_first_access)
  from r show "list_gen sample 8 bar6_stuffs = (Inr [10], bar6_listed)"
    by (simp add: bar6_listed_def prod_eq_iff)
  from bar6_first_access(2) have "heap bar6_stuffs ! 5 = Lazy (PRef 8) 6 (ChildrenField ''stuff'' Stuff)"
    by (simp add: lookup_def split: if_splits)
  with h show "lookup 5 bar6_listed = Some (Lazy (PRef 8) 6 (ChildrenField ''stuff'' Stuff))"
    by (simp add: lookup_def nth_append bar6_first_access)
  from h show "lookup 8 bar6_listed = Some (Generator GenDone)"
    by (simp add: lookup_def nth_append bar6_first_access)
qed

text \<open>
  C1 does not hold of the code.  \<open>ChildrenField\<close> is documented as giving a sequence
  of \<open>XPathRecord\<close> objects, and the claim has every access give a new sequence of
  the same length.  On the last \<open>bar\<close> of the sample document the first access of
  \<open>stuffs\<close> gives a generator (object 8) without evaluating anything, and listing it
  gives one sub-record (object 10) after two adapter calls.  The second access
  evaluates nothing and gives object 8 again, and listing it gives no sub-record:
  \<open>Lazy\<close> has stored a generator that can be run only once.
\<close>

theorem Children_reaccess_counterexample:
  "fst (Lazy_call sample 5 bar6) = Inr (PRef 8) \<and>
   evals bar6_stuffs = [] \<and>
   fst (list_gen sample 8 bar6_stuffs) = Inr [10] \<and>
   evals bar6_listed = [(6, ''stuff''), (62, ''.'')] \<and>
   fst (Lazy_call sample 5 bar6_listed) = Inr (PRef 8) \<and>
   evals (snd (Lazy_call sample 5 bar6_listed)) = evals bar6_listed \<and>
   fst (list_gen sample 8 (snd (Lazy_call sample 5 bar6_listed))) = Inr []"
proof -
  have nn: "PRef 8 \<noteq> (PNone :: (int \<times> nat, nat \<times> nat \<times> nat \<times> nat \<times> nat \<times> nat) pyval)"
    by simp
  from bar6_first_listing(2) nn have a: "Lazy_call sample 5 bar6_listed = (Inr (PRef 8), bar6_listed)"
    by (rule Lazy_call_set)
  from bar6_first_listing(3) have d: "list_gen sample 8 bar6_listed = (Inr [], bar6_listed)"
    by (rule list_gen_done)
  show ?thesis
    by (simp add: bar6_first_access bar6_first_listing a d)
qed

lemma Children_generator_cached_sample:
  "lookup 5 bar6 = Some (Lazy PNone 6 (ChildrenField ''stuff'' Stuff)) \<and>
   (\<exists>g s1 refs s2.
     Lazy_call sample 5 bar6 = (Inr (PRef g), s1) \<and>
     evals s1 = evals bar6 \<and>
     Lazy_call sample 5 s1 = (Inr (PRef g), s1) \<and>
     list_gen sample g s1 = (Inr refs, s2) \<and>
     map (record_at s2) refs = [Some (Stuff, 62)] \<and>
     Lazy_call sample 5 s2 = (Inr (PRef g), s2) \<and>
     list_gen sample g s2 = (Inr [], s2))"
proof -
  from Children_generator_cached [OF bar6_cell(1), of sample]
  obtain g s1 refs s2 where h:
    "Lazy_call sample 5 bar6 = (Inr (PRef g), s1)"
    "evals s1 = evals bar6"
    "Lazy_call sample 5 s1 = (Inr (PRef g), s1)"
    "list_gen sample g s1 = (Inr refs, s2)"
    "map (record_at s2) refs =
       map (\<lambda>m. Some (Stuff, m)) (survivors sample Stuff (xpathEval sample 6 ''stuff''))"
    "Lazy_call sample 5 s2 = (Inr (PRef g), s2)"
    "list_gen sample g s2 = (Inr [], s2)"
    by blast
  from h(5) have m: "map (record_at s2) refs = [Some (Stuff, 62)]"
    by (simp add: sample_stuff_survivors)
  from h(1-4) m h(6,7) have
    "Lazy_call sample 5 bar6 = (Inr (PRef g), s1) \<and>
     evals s1 = evals bar6 \<and>
     Lazy_call sample 5 s1 = (Inr (PRef g), s1) \<and>
     list_gen sample g s1 = (Inr refs, s2) \<and>
     map (record_at s2) refs = [Some (Stuff, 62)] \<and>
     Lazy_call sample 5 s2 = (Inr (PRef g), s2) \<and>
     list_gen sample g s2 = (Inr [], s2)"
    by simp
  then have "\<exists>g s1 refs s2.
     Lazy_call sample 5 bar6 = (Inr (PRef g), s1) \<and>
     evals s1 = evals bar6 \<and>
     Lazy_call sample 5 s1 = (Inr (PRef g), s1) \<and>
     list_gen sample g s1 = (Inr refs, s2) \<and>
     map (record_at s2) refs = [Some (Stuff, 62)] \<and>
     Lazy_call sample 5 s2 = (Inr (PRef g), s2) \<and>
     list_gen sample g s2 = (Inr [], s2)"
    by (intro exI)
  with bar6_cell(1) show ?thesis by (rule conjI)
qed

text \<open>
  C7.  When no outer match yields a sub-record that survives the filter, the value of a
  FirstChild field is \<open>None\<close>, not an error, and nothing is built; otherwise it is a
  new record over the first surviving node in document order, the node of the first
  sub-record that the Children field of the same XPath and class yields.
\<close>

theorem FirstChild_value:
  "(case survivors E cls (xpathEval E ctx xpath) of
      [] \<Rightarrow> fst (field_value E (FirstChildField xpath cls) ctx s) = Inr PNone \<and>
            heap (snd (field_value E (FirstChildField xpath cls) ctx s)) = heap s
    | m # rest \<Rightarrow>
        fst (field_value E (FirstChildField xpath cls) ctx s) =
          Inr (PRef (length (heap s) + length (cls_fields cls))) \<and>
        lookup (length (heap s) + length (cls_fields cls)) s = None \<and>
        record_at (snd (field_value E (FirstChildField xpath cls) ctx s))
          (length (heap s) + length (cls_fields cls)) = Some (cls, m)) \<and>
   (\<exists>refs s2.
      list_gen E (length (heap s)) (snd (field_value E (ChildrenField xpath cls) ctx s)) = (Inr refs, s2) \<and>
      fst (field_value E (ChildrenField xpath cls) ctx s) = Inr (PRef (length (heap s))) \<and>
      map (record_at s2) refs = map (\<lambda>m. Some (cls, m)) (survivors E cls (xpathEval E ctx xpath)))"
proof -
  have first: "case survivors E cls (xpathEval E ctx xpath) of
      [] \<Rightarrow> fst (field_value E (FirstChildField xpath cls) ctx s) = Inr PNone \<and>
            heap (snd (field_value E (FirstChildField xpath cls) ctx s)) = heap s
    | m # rest \<Rightarrow>
        fst (field_value E (FirstChildField xpath cls) ctx s) =
          Inr (PRef (length (heap s) + length (cls_fields cls))) \<and>
        lookup (length (heap s) + length (cls_fields cls)) s = None \<and>
        record_at (snd (field_value E (FirstChildField xpath cls) ctx s))
          (length (heap s) + length (cls_fields cls)) = Some (cls, m)"
  proof (cases rule: FirstChild_value_cases [of E cls ctx xpath s])
    case absent
    then show ?thesis by simp
  next
    case (found m rest ns' tried)
    let ?s' = "snd (field_value E (FirstChildField xpath cls) ctx s)"
    from found(3) have "heap ?s' = heap s @ new_record_objs cls m (length (heap s))"
      by simp
    from record_at_new_record [OF this]
    have "record_at ?s' (length (heap s) + length (cls_fields cls)) = Some (cls, m)" .
    with found(1,3) show ?thesis
      by (simp add: lookup_def)
  qed
  let ?s0 = "s\<lparr>heap := heap s @ [Generator (ChildrenStart xpath cls ctx)]\<rparr>"
  have g: "lookup (length (heap s)) ?s0 = Some (Generator (ChildrenStart xpath cls ctx))"
    by (simp add: lookup_def)
  obtain refs s2 where
    "list_gen E (length (heap s)) ?s0 = (Inr refs, s2)"
    "map (record_at s2) refs = map (\<lambda>m. Some (cls, m)) (survivors E cls (xpathEval E ctx xpath))"
    by (rule list_gen_Children [OF g, of E])
  then have "\<exists>refs s2.
      list_gen E (length (heap s)) (snd (field_value E (ChildrenField xpath cls) ctx s)) = (Inr refs, s2) \<and>
      fst (field_value E (ChildrenField xpath cls) ctx s) = Inr (PRef (length (heap s))) \<and>
      map (record_at s2) refs = map (\<lambda>m. Some (cls, m)) (survivors E cls (xpathEval E ctx xpath))"
    by (simp add: alloc_def)
  with first show ?thesis by (rule conjI)
qed

theorem FirstChild_value_witness:
  "survivors sample Baz (xpathEval sample 1 ''baz'') = [7, 8] \<and>
   fst (field_value sample (FirstChildField ''baz'' Baz) 1 start) = Inr (PRef 3) \<and>
   record_at (snd (field_value sample (FirstChildField ''baz'' Baz) 1 start)) 3 = Some (Baz, 7) \<and>
   survivors sample Stuff (xpathEval sample 3 ''stuff'') = [] \<and>
   fst (field_value sample (FirstChildField ''stuff'' Stuff) 3 start) = Inr PNone"
proof -
  have a: "survivors sample Baz (xpathEval sample 1 ''baz'') = [7, 8]"
    by (simp add: survivors_def sample_defs Baz_def default_record_filter_def)
  have b: "survivors sample Stuff (xpathEval sample 3 ''stuff'') = []"
    by (simp add: survivors_def sample_defs)
  have k: "length (cls_fields Baz) = 3" "length (heap start) = 0"
    by (simp_all add: Baz_def start_def)
  from FirstChild_value [where E = sample and cls = Baz and ctx = 1 and xpath = "''baz''" and s = start] a k
  have "fst (field_value sample (FirstChildField ''baz'' Baz) 1 start) = Inr (PRef 3) \<and>
   record_at (snd (field_value sample (FirstChildField ''baz'' Baz) 1 start)) 3 = Some (Baz, 7)"
    by simp
  moreover from FirstChild_value [where E = sample and cls = Stuff and ctx = 3 and xpath = "''stuff''" and s = start] b
  have "fst (field_value sample (FirstChildField ''stuff'' Stuff) 3 start) = Inr PNone"
    by simp
  ultimately show ?thesis using a b by blast
qed

text \<open>
  C9.  \<open>XPathRecord.__init__\<close> makes no adapter call and computes no value: every
  accessor of the new record is a cell with an empty cache, over the record's node and
  the declared field.  An error of a field's value computation is what the access of
  that field returns.  Running the \<open>records\<close> factory to its end, which builds every
  record, makes the one adapter call of its xpath and raises nothing.
\<close>

theorem construction_evaluates_nothing:
  fixes E :: "('n, 'f, 'd) ext" and s :: "('n, 'f, 'd) state"
  shows "evals (snd (XPathRecord_init cls ctx s)) = evals s \<and>
     record_at (snd (XPathRecord_init cls ctx s)) (fst (XPathRecord_init cls ctx s)) = Some (cls, ctx) \<and>
     (i < length (cls_fields cls) \<longrightarrow>
        lookup (length (heap s) + i) (snd (XPathRecord_init cls ctx s)) =
          Some (Lazy PNone ctx (snd (cls_fields cls ! i)))) \<and>
     (i < length (cls_fields cls) \<and> distinct (map fst (cls_fields cls)) \<longrightarrow>
        access E (fst (XPathRecord_init cls ctx s)) (fst (cls_fields cls ! i))
          (snd (XPathRecord_init cls ctx s)) =
        Lazy_call E (length (heap s) + i) (snd (XPathRecord_init cls ctx s))) \<and>
     (i < length (cls_fields cls) \<and>
      field_value E (snd (cls_fields cls ! i)) ctx (snd (XPathRecord_init cls ctx s)) = (Inl e, t) \<longrightarrow>
        Lazy_call E (length (heap s) + i) (snd (XPathRecord_init cls ctx s)) = (Inl e, t)) \<and>
     (\<exists>refs s2. list_gen E (fst (records cls ctx xpath s)) (snd (records cls ctx xpath s)) = (Inr refs, s2) \<and>
        evals s2 = evals s @ [(ctx, xpath)])"
proof -
  have a: "evals (snd (XPathRecord_init cls ctx s)) = evals s"
    by (simp add: XPathRecord_init_objs)
  have h: "heap (snd (XPathRecord_init cls ctx s)) = heap s @ new_record_objs cls ctx (length (heap s))"
    by (simp add: XPathRecord_init_objs)
  from record_at_new_record [OF h]
  have b: "record_at (snd (XPathRecord_init cls ctx s)) (fst (XPathRecord_init cls ctx s)) = Some (cls, ctx)"
    by (simp add: XPathRecord_init_objs)
  have c: "i < length (cls_fields cls) \<longrightarrow>
        lookup (length (heap s) + i) (snd (XPathRecord_init cls ctx s)) =
          Some (Lazy PNone ctx (snd (cls_fields cls ! i)))"
    using new_record_cell [where i = i and cls = cls and s = s and ctx = ctx] by blast
  have d: "i < length (cls_fields cls) \<and> distinct (map fst (cls_fields cls)) \<longrightarrow>
        access E (fst (XPathRecord_init cls ctx s)) (fst (cls_fields cls ! i))
          (snd (XPathRecord_init cls ctx s)) =
        Lazy_call E (length (heap s) + i) (snd (XPathRecord_init cls ctx s))"
    using access_new_record [where i = i and cls = cls and s = s and ctx = ctx and E = E] by blast
  have e: "i < length (cls_fields cls) \<and>
      field_value E (snd (cls_fields cls ! i)) ctx (snd (XPathRecord_init cls ctx s)) = (Inl e, t) \<longrightarrow>
        Lazy_call E (length (heap s) + i) (snd (XPathRecord_init cls ctx s)) = (Inl e, t)"
  proof
    assume p: "i < length (cls_fields cls) \<and>
      field_value E (snd (cls_fields cls ! i)) ctx (snd (XPathRecord_init cls ctx s)) = (Inl e, t)"
    from new_record_cell [where i = i and cls = cls and s = s and ctx = ctx] p
    have "lookup (length (heap s) + i) (snd (XPathRecord_init cls ctx s)) =
          Some (Lazy PNone ctx (snd (cls_fields cls ! i)))"
      by blast
    from Lazy_call_unset [OF this, of E] p
    show "Lazy_call E (length (heap s) + i) (snd (XPathRecord_init cls ctx s)) = (Inl e, t)"
      by simp
  qed
  obtain refs s2 where
    "list_gen E (fst (records cls ctx xpath s)) (snd (records cls ctx xpath s)) = (Inr refs, s2)"
    "evals s2 = evals s @ [(ctx, xpath)]"
    by (rule records_list_gen [of E cls ctx xpath s])
  then have f: "\<exists>refs s2. list_gen E (fst (records cls ctx xpath s)) (snd (records cls ctx xpath s)) = (Inr refs, s2) \<and>
        evals s2 = evals s @ [(ctx, xpath)]"
    by blast
  from a b c d e f show ?thesis by (intro conjI)
qed

theorem construction_evaluates_nothing_witness:
  "(1 :: nat) < length (cls_fields Baz) \<and> distinct (map fst (cls_fields Baz)) \<and>
   cls_fields Baz ! 1 = (''boolean'', BooleanField_init sample ''@bool'' None None) \<and>
   fst (field_value sample (BooleanField_init sample ''@bool'' None None) 8 (snd (XPathRecord_init Baz 8 start))) =
     Inl (ValueError ''The value (whatever) is neither true nor false'') \<and>
   evals (snd (XPathRecord_init Baz 8 start)) = [] \<and>
   record_at (snd (XPathRecord_init Baz 8 start)) (fst (XPathRecord_init Baz 8 start)) = Some (Baz, 8) \<and>
   lookup 1 (snd (XPathRecord_init Baz 8 start)) = Some (Lazy PNone 8 (BooleanField_init sample ''@bool'' None None)) \<and>
   fst (access sample (fst (XPathRecord_init Baz 8 start)) ''boolean'' (snd (XPathRecord_init Baz 8 start))) =
     Inl (ValueError ''The value (whatever) is neither true nor false'')"
proof -
  let ?s = "snd (XPathRecord_init Baz 8 start)"
  let ?f = "BooleanField_init sample ''@bool'' None None :: nat field"
  let ?e = "ValueError ''The value (whatever) is neither true nor false''"
  have i: "(1 :: nat) < length (cls_fields Baz)" and d: "distinct (map fst (cls_fields Baz))"
    and n: "cls_fields Baz ! 1 = (''boolean'', ?f)"
    by (simp_all add: Baz_def)
  have v: "field_value sample ?f 8 ?s = (Inl ?e, snd (field_value sample ?f 8 ?s))"
    by (simp add: BooleanField_init_def DEFAULT_TRUE_VALUES_def DEFAULT_FALSE_VALUES_def
        TextField_value_eq sample_defs string_defs)
  then have v1: "fst (field_value sample ?f 8 ?s) = Inl ?e"
    by (rule arg_cong [where f = fst, THEN trans]) simp
  have h: "length (heap start) = 0" "evals start = []"
    by (simp_all add: start_def)
  note th = construction_evaluates_nothing [where cls = Baz and ctx = 8 and s = start and i = 1
      and E = sample and e = ?e and t = "snd (field_value sample ?f 8 ?s)"]
  from th h have a: "evals ?s = []" "record_at ?s (fst (XPathRecord_init Baz 8 start)) = Some (Baz, 8)"
    by simp_all
  from th i n h have c: "lookup 1 ?s = Some (Lazy PNone 8 ?f)"
    by simp
  from th i d n h have ac: "access sample (fst (XPathRecord_init Baz 8 start)) ''boolean'' ?s =
      Lazy_call sample 1 ?s"
    by simp
  from th i n v h have "Lazy_call sample 1 ?s = (Inl ?e, snd (field_value sample ?f 8 ?s))"
    by simp
  with ac have "fst (access sample (fst (XPathRecord_init Baz 8 start)) ''boolean'' ?s) = Inl ?e"
    by simp
  with i d n v1 a c show ?thesis by blast
qed

text \<open>
  The sample document with the \<open>bool\<close> attribute of the first \<open>baz\<close> written \<open>Y\<close>
  and that of the second written \<open>n\<close>.
\<close>

definition shouted :: "(nat, int \<times> nat, nat \<times> nat \<times> nat \<times> nat \<times> nat \<times> nat) ext" where
  "shouted = sample
     \<lparr>content := (\<lambda>n. if n = 70 then ''Y'' else if n = 80 then ''n'' else sample_content n)\<rparr>"

text \<open>
  C5, as amended.  The value of a Boolean field is computed from the value of the Text
  field of the same XPath, trimmed and lower-cased (\<open>w\<close>), with the adapter calls of
  that Text field: it is true exactly when \<open>w\<close> is in the true-token tuple, false
  exactly when \<open>w\<close> is in the false-token tuple and not in the true-token tuple (the
  true tokens are looked at first), and a \<open>ValueError\<close> exactly when it is in
  neither.  The tuples are the defaults, or the tokens given at declaration
  lower-cased, so that a given token matches when its lower-casing is \<open>w\<close>.
\<close>

theorem BooleanField_value:
  "\<exists>text w.
     fst (field_value E (TextField xpath) ctx s) = Inr (PStr text) \<and>
     w = lower E (strip (isspace E) text) \<and>
     (fst (field_value E (BooleanField xpath T F) ctx s) = Inr (PBool True)) = (w \<in> set T) \<and>
     (fst (field_value E (BooleanField xpath T F) ctx s) = Inr (PBool False)) =
       (w \<notin> set T \<and> w \<in> set F) \<and>
     (\<exists>e. fst (field_value E (BooleanField xpath T F) ctx s) = Inl e) = (w \<notin> set T \<and> w \<notin> set F) \<and>
     (w \<notin> set T \<and> w \<notin> set F \<longrightarrow>
        fst (field_value E (BooleanField xpath T F) ctx s) =
          Inl (ValueError (''The value ('' @ w @ '') is neither true nor false''))) \<and>
     snd (field_value E (BooleanField xpath T F) ctx s) = snd (field_value E (TextField xpath) ctx s) \<and>
     BooleanField_init E xpath true_values false_values =
       BooleanField xpath
         (case true_values of None \<Rightarrow> [''y'', ''yes'', ''true'', ''t'', ''ok'']
                            | Some tv \<Rightarrow> map (lower E) tv)
         (case false_values of None \<Rightarrow> [''n'', ''no'', ''false'', ''f'', ''nil'']
                             | Some fv \<Rightarrow> map (lower E) fv) \<and>
     (w \<in> set (map (lower E) tokens)) =
       (\<exists>tok \<in> set tokens. lower E tok = lower E (strip (isspace E) text))"
proof -
  let ?text = "fst (TextField_value E xpath ctx s)"
  let ?w = "lower E (strip (isspace E) ?text)"
  let ?r = "field_value E (BooleanField xpath T F) ctx s"
  have tv: "TextField_value E xpath ctx s = (?text, snd (TextField_value E xpath ctx s))"
    by simp
  have a: "fst (field_value E (TextField xpath) ctx s) = Inr (PStr ?text)"
    by (simp add: split_beta)
  have r: "fst ?r =
      (if ?w \<in> set T then Inr (PBool True)
       else if ?w \<in> set F then Inr (PBool False)
       else Inl (ValueError (''The value ('' @ ?w @ '') is neither true nor false'')))"
    by (simp add: split_beta)
  have b: "(fst ?r = Inr (PBool True)) = (?w \<in> set T)"
    unfolding r by simp
  have c: "(fst ?r = Inr (PBool False)) = (?w \<notin> set T \<and> ?w \<in> set F)"
    unfolding r by simp
  have d: "(\<exists>e. fst ?r = Inl e) = (?w \<notin> set T \<and> ?w \<notin> set F)"
    unfolding r by simp
  have e: "?w \<notin> set T \<and> ?w \<notin> set F \<longrightarrow>
        fst ?r = Inl (ValueError (''The value ('' @ ?w @ '') is neither true nor false''))"
    unfolding r by simp
  have f: "snd ?r = snd (field_value E (TextField xpath) ctx s)"
    by (simp add: split_beta)
  have g: "BooleanField_init E xpath true_values false_values =
       BooleanField xpath
         (case true_values of None \<Rightarrow> [''y'', ''yes'', ''true'', ''t'', ''ok'']
                            | Some tv \<Rightarrow> map (lower E) tv)
         (case false_values of None \<Rightarrow> [''n'', ''no'', ''false'', ''f'', ''nil'']
                             | Some fv \<Rightarrow> map (lower E) fv)"
    unfolding BooleanField_init_def DEFAULT_TRUE_VALUES_def DEFAULT_FALSE_VALUES_def
    by (rule refl)
  have h: "(?w \<in> set (map (lower E) tokens)) =
       (\<exists>tok \<in> set tokens. lower E tok = lower E (strip (isspace E) ?text))"
    by (auto simp: image_iff) metis
  from a b c d e f g h show ?thesis
    by (intro exI [of _ ?text] exI [of _ ?w] conjI refl)
qed

theorem BooleanField_value_witness:
  "fst (field_value shouted (TextField ''@bool'') 7 start) = Inr (PStr ''Y'') \<and>
   fst (field_value shouted (BooleanField_init shouted ''@bool'' None None) 7 start) = Inr (PBool True) \<and>
   fst (field_value shouted (BooleanField_init shouted ''@bool'' None None) 8 start) = Inr (PBool False) \<and>
   fst (field_value sample (BooleanField_init sample ''@bool'' None None) 8 start) =
     Inl (ValueError ''The value (whatever) is neither true nor false'') \<and>
   fst (field_value sample
         (BooleanField_init sample ''stuff/text()'' (Some [''I am inside BAR'']) (Some [[]])) 6 start) =
     Inr (PBool True)"
proof -
  let ?T = "[''y'', ''yes'', ''true'', ''t'', ''ok'']"
  let ?F = "[''n'', ''no'', ''false'', ''f'', ''nil'']"
  have sh: "isspace shouted = ascii_isspace" "lower shouted = ascii_lower"
    "xpathEval shouted = sample_xpathEval" "content shouted 70 = ''Y''" "content shouted 80 = ''n''"
    by (simp_all add: shouted_def sample_def)
  have t7: "fst (field_value shouted (TextField ''@bool'') 7 start) = Inr (PStr ''Y'')"
    by (simp add: TextField_value_eq sh sample_xpathEval_def string_defs)
  have t8: "fst (field_value shouted (TextField ''@bool'') 8 start) = Inr (PStr ''n'')"
    by (simp add: TextField_value_eq sh sample_xpathEval_def string_defs)
  have s8: "fst (field_value sample (TextField ''@bool'') 8 start) = Inr (PStr ''whatever'')"
    by (simp add: TextField_value_eq sample_defs string_defs)
  have s6: "fst (field_value sample (TextField ''stuff/text()'') 6 start) = Inr (PStr ''I am inside bar'')"
    by (simp add: TextField_value_eq sample_defs string_defs)
  have l: "ascii_lower (strip ascii_isspace ''Y'') = ''y''"
    "ascii_lower (strip ascii_isspace ''n'') = ''n''"
    "ascii_lower (strip ascii_isspace ''whatever'') = ''whatever''"
    "ascii_lower (strip ascii_isspace ''I am inside bar'') = ''i am inside bar''"
    "map ascii_lower [''I am inside BAR''] = [''i am inside bar'']"
    by (code_simp)+
  have sl: "isspace sample = ascii_isspace" "lower sample = ascii_lower"
    by (simp_all add: sample_def)
  have r1: "fst (field_value shouted (BooleanField_init shouted ''@bool'' None None) 7 start) =
      Inr (PBool True)"
    using BooleanField_value [where E = shouted and xpath = "''@bool''" and ctx = 7 and s = start
      and T = ?T and F = ?F and true_values = None and false_values = None and tokens = "[]", unfolded option.case]
  proof (elim exE conjE)
    fix tx w
    assume a: "fst (field_value shouted (TextField ''@bool'') 7 start) = Inr (PStr tx)"
      and w: "w = lower shouted (strip (isspace shouted) tx)"
      and b: "(fst (field_value shouted (BooleanField ''@bool'' ?T ?F) 7 start) = Inr (PBool True)) =
          (w \<in> set ?T)"
      and g: "BooleanField_init shouted ''@bool'' None None = BooleanField ''@bool'' ?T ?F"
    from a t7 have "tx = ''Y''" by simp
    with w l(1) have "w = ''y''" by (simp add: sh)
    with b g show ?thesis by simp
  qed
  have r2: "fst (field_value shouted (BooleanField_init shouted ''@bool'' None None) 8 start) =
      Inr (PBool False)"
    using BooleanField_value [where E = shouted and xpath = "''@bool''" and ctx = 8 and s = start
      and T = ?T and F = ?F and true_values = None and false_values = None and tokens = "[]", unfolded option.case]
  proof (elim exE conjE)
    fix tx w
    assume a: "fst (field_value shouted (TextField ''@bool'') 8 start) = Inr (PStr tx)"
      and w: "w = lower shouted (strip (isspace shouted) tx)"
      and c: "(fst (field_value shouted (BooleanField ''@bool'' ?T ?F) 8 start) = Inr (PBool False)) =
          (w \<notin> set ?T \<and> w \<in> set ?F)"
      and g: "BooleanField_init shouted ''@bool'' None None = BooleanField ''@bool'' ?T ?F"
    from a t8 have "tx = ''n''" by simp
    with w l(2) have "w = ''n''" by (simp add: sh)
    with c g show ?thesis by simp
  qed
  have r3: "fst (field_value sample (BooleanField_init sample ''@bool'' None None) 8 start) =
      Inl (ValueError ''The value (whatever) is neither true nor false'')"
    using BooleanField_value [where E = sample and xpath = "''@bool''" and ctx = 8 and s = start
      and T = ?T and F = ?F and true_values = None and false_values = None and tokens = "[]", unfolded option.case]
  proof (elim exE conjE)
    fix tx w
    assume a: "fst (field_value sample (TextField ''@bool'') 8 start) = Inr (PStr tx)"
      and w: "w = lower sample (strip (isspace sample) tx)"
      and e: "w \<notin> set ?T \<and> w \<notin> set ?F \<longrightarrow>
          fst (field_value sample (BooleanField ''@bool'' ?T ?F) 8 start) =
            Inl (ValueError (''The value ('' @ w @ '') is neither true nor false''))"
      and g: "BooleanField_init sample ''@bool'' None None = BooleanField ''@bool'' ?T ?F"
    from a s8 have "tx = ''whatever''" by simp
    with w l(3) have "w = ''whatever''" by (simp add: sl)
    with e g show ?thesis by simp
  qed
  have r4: "fst (field_value sample
         (BooleanField_init sample ''stuff/text()'' (Some [''I am inside BAR'']) (Some [[]])) 6 start) =
     Inr (PBool True)"
    using BooleanField_value [where E = sample and xpath = "''stuff/text()''" and ctx = 6 and s = start
      and T = "map (lower sample) [''I am inside BAR'']" and F = "map (lower sample) [[]]"
      and true_values = "Some [''I am inside BAR'']" and false_values = "Some [[]]" and tokens = "[]",
      unfolded option.case]
  proof (elim exE conjE)
    fix tx w
    assume a: "fst (field_value sample (TextField ''stuff/text()'') 6 start) = Inr (PStr tx)"
      and w: "w = lower sample (strip (isspace sample) tx)"
      and b: "(fst (field_value sample (BooleanField ''stuff/text()''
             (map (lower sample) [''I am inside BAR'']) (map (lower sample) [[]])) 6 start) =
            Inr (PBool True)) = (w \<in> set (map (lower sample) [''I am inside BAR'']))"
      and g: "BooleanField_init sample ''stuff/text()'' (Some [''I am inside BAR'']) (Some [[]]) =
          BooleanField ''stuff/text()'' (map (lower sample) [''I am inside BAR''])
            (map (lower sample) [[]])"
    from a s6 have "tx = ''I am inside bar''" by simp
    with w l(4) have "w = ''i am inside bar''" by (simp add: sl)
    moreover from l(5) have "map (lower sample) [''I am inside BAR''] = [''i am inside bar'']"
      by (simp only: sl)
    ultimately have "w \<in> set (map (lower sample) [''I am inside BAR''])" by simp
    with b g show ?thesis by (simp only:)
  qed
  from t7 r1 r2 r3 r4 show ?thesis by (intro conjI)
qed

text \<open>
  C5 as stated fails when a token is in both sets: declared with the true token \<open>Y\<close>
  and the false token \<open>y\<close>, the field over the text \<open>y\<close>, a member of the
  false-token set, is true.
\<close>

theorem BooleanField_overlap_counterexample:
  "fst (field_value sample (TextField ''@bool'') 7 start) = Inr (PStr ''y'') \<and>
   lower sample (strip (isspace sample) ''y'') \<in> set (map (lower sample) [''y'']) \<and>
   fst (field_value sample (BooleanField_init sample ''@bool'' (Some [''Y'']) (Some [''y''])) 7 start) =
     Inr (PBool True)"
proof -
  have l: "ascii_lower (strip ascii_isspace ''y'') = ''y''" "ascii_lower ''Y'' = ''y''"
    "ascii_lower ''y'' = ''y''"
    by (code_simp)+
  have s: "strip ascii_isspace ''y'' = ''y''"
    by (simp add: strip_def lstrip_def rstrip_def ascii_isspace_def)
  show ?thesis
    by (simp add: BooleanField_init_def TextField_value_eq sample_defs s l)
qed

end
